theory Spec2Isabelle
  imports Complex_Main "HOL-Library.Word"
begin

unbundle bit_operations_syntax

section \<open>Data model\<close>

text \<open>
  The pixel buffer is a \<open>Uint8ClampedArray\<close>: a flat sequence of unsigned 8-bit samples
  in the order R, G, B, A. A JavaScript string is a sequence of UTF-16 code units, read
  by \<open>charCodeAt\<close>; the binary message is a string of the characters \<open>0\<close> and \<open>1\<close>,
  kept here as a list of booleans (\<open>True\<close> for \<open>1\<close>).
\<close>

type_synonym pixels = "8 word list"
type_synonym jsstring = "nat list"
type_synonym bits = "bool list"

datatype error = CapacityExceeded | UnknownTechnique | SignatureMismatch

text \<open>The terminator \<open>\<section>END\<section>\<close>: code units 167, 69, 78, 68, 167.\<close>

definition terminator :: jsstring where
  "terminator = [167, 69, 78, 68, 167]"

section \<open>BitCodec\<close>

text \<open>\<open>Number.prototype.toString(2)\<close> on a non-negative integer: no leading zero, \<open>0\<close> for 0.\<close>

fun toString2 :: "nat \<Rightarrow> bits" where
  "toString2 n = (if n < 2 then [n = 1] else toString2 (n div 2) @ [n mod 2 = 1])"

declare toString2.simps [simp del]

definition padStart :: "nat \<Rightarrow> bool \<Rightarrow> bits \<Rightarrow> bits" where
  "padStart k c s = replicate (k - length s) c @ s"

text \<open>\<open>textToBinary\<close>: every code unit as binary digits, padded to at least 8.\<close>

primrec textToBinary :: "jsstring \<Rightarrow> bits" where
  "textToBinary [] = []"
| "textToBinary (charCode # text) = padStart 8 False (toString2 charCode) @ textToBinary text"

text \<open>\<open>Number.parseInt(byte, 2)\<close> on a string of binary digits.\<close>

definition parseInt2 :: "bits \<Rightarrow> nat" where
  "parseInt2 byte = foldl (\<lambda>acc b. 2 * acc + of_bool b) 0 byte"

text \<open>\<open>String.fromCharCode\<close> keeps the low 16 bits of its argument.\<close>

definition fromCharCode :: "nat \<Rightarrow> nat" where
  "fromCharCode n = n mod 65536"

text \<open>
  \<open>binaryToText\<close>: the loop advances by 8, takes \<open>substr(i, 8)\<close> and stops at the first
  group shorter than 8.
\<close>

function binaryToText :: "bits \<Rightarrow> jsstring" where
  "binaryToText binary =
     (if binary = [] then []
      else (let byte = take 8 binary in
            if length byte < 8 then []
            else fromCharCode (parseInt2 byte) # binaryToText (drop 8 binary)))"
  by pat_completeness auto
termination
  by (relation "measure length") auto

declare binaryToText.simps [simp del]

text \<open>
  \<open>String.prototype.indexOf\<close>: the least position at which the pattern starts, \<open>None\<close>
  for the result -1.
\<close>

fun indexOf :: "jsstring \<Rightarrow> jsstring \<Rightarrow> nat option" where
  "indexOf [] pat = (if pat = [] then Some 0 else None)"
| "indexOf (c # s) pat =
     (if take (length pat) (c # s) = pat then Some 0
      else map_option Suc (indexOf s pat))"

section \<open>Array access and numbers\<close>

text \<open>
  Reading a typed array outside its range gives \<open>undefined\<close> (\<open>None\<close>); writing outside
  its range does nothing, which is what \<open>xs[k := v]\<close> does.
\<close>

definition rd :: "pixels \<Rightarrow> nat \<Rightarrow> 8 word option" where
  "rd data k = (if k < length data then Some (data ! k) else None)"

text \<open>The operand of a bitwise operator: \<open>undefined\<close> becomes 0.\<close>

definition toInt32 :: "8 word option \<Rightarrow> 8 word" where
  "toInt32 v = (case v of None \<Rightarrow> 0 | Some w \<Rightarrow> w)"

text \<open>
  A JavaScript number in arithmetic: \<open>None\<close> is \<open>NaN\<close> (which \<open>undefined\<close> becomes),
  \<open>Some r\<close> a finite double, given by its value \<open>r\<close> (the two zeros are one value).
\<close>

type_synonym number = "real option"

definition toNumber :: "8 word option \<Rightarrow> number" where
  "toNumber v = map_option (\<lambda>w. real (unat w)) v"

text \<open>
  The sum of two integers: the sums that the code forms of samples (at most 100 of them,
  each below 256) are exact in double precision.
\<close>

definition jadd :: "number \<Rightarrow> number \<Rightarrow> number" where
  "jadd a b = (case a of None \<Rightarrow> None | Some x \<Rightarrow> (case b of None \<Rightarrow> None | Some y \<Rightarrow> Some (x + y)))"

text \<open>
  Everywhere else the arithmetic of doubles rounds its results, and \<open>Math.cos\<close>,
  \<open>Math.sqrt\<close> and \<open>Math.PI\<close> are what the platform provides. These operations on finite
  doubles are a parameter of the model: the rounded sum, product and quotient, the square
  root, the cosine and the constant. The values that occur stay far below the overflow
  threshold, so a result is finite whenever the operands are.
\<close>

record double_ops =
  dadd :: "real \<Rightarrow> real \<Rightarrow> real"
  dmul :: "real \<Rightarrow> real \<Rightarrow> real"
  ddiv :: "real \<Rightarrow> real \<Rightarrow> real"
  dsqrt :: "real \<Rightarrow> real"
  dcos :: "real \<Rightarrow> real"
  dpi :: real

text \<open>The operators \<open>+\<close>, \<open>*\<close> and \<open>/\<close> on numbers: \<open>NaN\<close> as soon as an operand is.\<close>

definition nadd :: "double_ops \<Rightarrow> number \<Rightarrow> number \<Rightarrow> number" where
  "nadd ops a b =
     (case a of None \<Rightarrow> None | Some x \<Rightarrow> (case b of None \<Rightarrow> None | Some y \<Rightarrow> Some (dadd ops x y)))"

definition nmul :: "double_ops \<Rightarrow> number \<Rightarrow> number \<Rightarrow> number" where
  "nmul ops a b =
     (case a of None \<Rightarrow> None | Some x \<Rightarrow> (case b of None \<Rightarrow> None | Some y \<Rightarrow> Some (dmul ops x y)))"

definition ndiv :: "double_ops \<Rightarrow> number \<Rightarrow> number \<Rightarrow> number" where
  "ndiv ops a b =
     (case a of None \<Rightarrow> None | Some x \<Rightarrow> (case b of None \<Rightarrow> None | Some y \<Rightarrow> Some (ddiv ops x y)))"

text \<open>\<open>a > b\<close> is false as soon as one side is \<open>NaN\<close>.\<close>

definition jgt :: "number \<Rightarrow> number \<Rightarrow> bool" where
  "jgt a b = (case a of None \<Rightarrow> False | Some x \<Rightarrow> (case b of None \<Rightarrow> False | Some y \<Rightarrow> x > y))"

text \<open>\<open>Math.round\<close>: the nearest integer, a tie going up.\<close>

definition js_round :: "real \<Rightarrow> int" where
  "js_round r = \<lfloor>r + 1 / 2\<rfloor>"

text \<open>
  The remainder operator \<open>%\<close> on integers: the sign of the dividend, \<open>NaN\<close> for a zero
  divisor.
\<close>

definition js_rem :: "int \<Rightarrow> int \<Rightarrow> int option" where
  "js_rem a b = (if b = 0 then None else Some (sgn a * (\<bar>a\<bar> mod \<bar>b\<bar>)))"

text \<open>
  Storing a number into a \<open>Uint8ClampedArray\<close>: \<open>NaN\<close> becomes 0, the value is clamped
  to [0, 255] and rounded to the nearest integer, a tie going to the even one.
\<close>

definition toUint8Clamp :: "number \<Rightarrow> 8 word" where
  "toUint8Clamp v =
     (case v of None \<Rightarrow> 0
      | Some r \<Rightarrow>
         (if r \<le> 0 then 0
          else if r \<ge> 255 then 255
          else (let f = \<lfloor>r\<rfloor> in
                if real_of_int f + 1 / 2 < r then word_of_int (f + 1)
                else if r < real_of_int f + 1 / 2 then word_of_int f
                else if even f then word_of_int f else word_of_int (f + 1))))"

section \<open>BitPlaneLSB\<close>

text \<open>
  \<open>applyLSB\<close>: the pixel loop (\<open>i\<close>, step 4) and the channel loop (\<open>j\<close> below 3) as one
  recursion on the pair; \<open>return\<close> at the first channel with no bit left. The bound
  \<open>i < data.length\<close> does not change inside the channel loop.
\<close>

function applyLSB_loop :: "pixels \<Rightarrow> bits \<Rightarrow> nat \<Rightarrow> nat \<Rightarrow> nat \<Rightarrow> pixels" where
  "applyLSB_loop data binaryMessage i j bitIndex =
     (if i < length data then
        (if j < 3 then
           (if bitIndex < length binaryMessage then
              applyLSB_loop
                (data[i + j := (toInt32 (rd data (i + j)) AND 0xfe) OR of_bool (binaryMessage ! bitIndex)])
                binaryMessage i (j + 1) (bitIndex + 1)
            else data)
         else applyLSB_loop data binaryMessage (i + 4) 0 bitIndex)
      else data)"
  by pat_completeness auto
termination
  by (relation "measures [\<lambda>(data, bm, i, j, b). length data - i, \<lambda>(data, bm, i, j, b). 3 - j]") auto

declare applyLSB_loop.simps [simp del]

definition applyLSB :: "pixels \<Rightarrow> bits \<Rightarrow> pixels" where
  "applyLSB data binaryMessage = applyLSB_loop data binaryMessage 0 0 0"

text \<open>
  \<open>binary.length < maxBits\<close> with \<open>maxBits = Math.min(data.length * 0.75, 100000)\<close>;
  the product with 0.75 is exact.
\<close>

definition belowMaxBits :: "pixels \<Rightarrow> bits \<Rightarrow> bool" where
  "belowMaxBits data binary \<longleftrightarrow> 4 * length binary < 3 * length data \<and> length binary < 100000"

text \<open>
  \<open>extractLSB\<close>: again both loops as one recursion. When the channel loop stops because
  \<open>maxBits\<close> is reached, the pixel loop stops on the same test.
\<close>

function extractLSB_loop :: "pixels \<Rightarrow> nat \<Rightarrow> nat \<Rightarrow> bits \<Rightarrow> bits" where
  "extractLSB_loop data i j binary =
     (if i < length data \<and> belowMaxBits data binary then
        (if j < 3 \<and> belowMaxBits data binary then
           extractLSB_loop data i (j + 1) (binary @ [toInt32 (rd data (i + j)) AND 0x01 = 1])
         else extractLSB_loop data (i + 4) 0 binary)
      else binary)"
  by pat_completeness auto
termination
  by (relation "measures [\<lambda>(data, i, j, b). length data - i, \<lambda>(data, i, j, b). 3 - j]") auto

declare extractLSB_loop.simps [simp del]

definition extractLSB :: "pixels \<Rightarrow> bits" where
  "extractLSB data = extractLSB_loop data 0 0 []"

section \<open>MultiPlaneLSB\<close>

text \<open>One pixel of \<open>applyImprovedLSB\<close>: red takes bit 1, green bit 0, blue bit 2.\<close>

definition applyImprovedLSB_pixel :: "pixels \<Rightarrow> bits \<Rightarrow> nat \<Rightarrow> nat \<Rightarrow> pixels \<times> nat" where
  "applyImprovedLSB_pixel data binaryMessage i bitIndex =
     (let (data1, b1) =
            (if bitIndex < length binaryMessage then
               (data[i := (toInt32 (rd data i) AND 0xfd) OR push_bit 1 (of_bool (binaryMessage ! bitIndex))],
                bitIndex + 1)
             else (data, bitIndex));
          (data2, b2) =
            (if b1 < length binaryMessage then
               (data1[i + 1 := (toInt32 (rd data1 (i + 1)) AND 0xfe) OR of_bool (binaryMessage ! b1)],
                b1 + 1)
             else (data1, b1));
          (data3, b3) =
            (if b2 < length binaryMessage then
               (data2[i + 2 := (toInt32 (rd data2 (i + 2)) AND 0xfb) OR push_bit 2 (of_bool (binaryMessage ! b2))],
                b2 + 1)
             else (data2, b2))
      in (data3, b3))"

lemma length_applyImprovedLSB_pixel [simp]:
  "length (fst (applyImprovedLSB_pixel data bm i b)) = length data"
  by (simp add: applyImprovedLSB_pixel_def Let_def split: prod.splits if_splits)

function applyImprovedLSB_loop :: "pixels \<Rightarrow> bits \<Rightarrow> nat \<Rightarrow> nat \<Rightarrow> pixels" where
  "applyImprovedLSB_loop data binaryMessage i bitIndex =
     (if i < length data then
        (let r = applyImprovedLSB_pixel data binaryMessage i bitIndex in
         if snd r \<ge> length binaryMessage then fst r
         else applyImprovedLSB_loop (fst r) binaryMessage (i + 4) (snd r))
      else data)"
  by pat_completeness auto
termination
  by (relation "measure (\<lambda>(data, bm, i, b). length data - i)") auto

declare applyImprovedLSB_loop.simps [simp del]

definition applyImprovedLSB :: "pixels \<Rightarrow> bits \<Rightarrow> pixels" where
  "applyImprovedLSB data binaryMessage = applyImprovedLSB_loop data binaryMessage 0 0"

definition extractImprovedLSB_pixel :: "pixels \<Rightarrow> nat \<Rightarrow> bits \<Rightarrow> bits" where
  "extractImprovedLSB_pixel data i binary =
     (let binary1 = binary @ [drop_bit 1 (toInt32 (rd data i) AND 0x02) = 1];
          binary2 = (if belowMaxBits data binary1
                     then binary1 @ [toInt32 (rd data (i + 1)) AND 0x01 = 1] else binary1);
          binary3 = (if belowMaxBits data binary2
                     then binary2 @ [drop_bit 2 (toInt32 (rd data (i + 2)) AND 0x04) = 1] else binary2)
      in binary3)"

function extractImprovedLSB_loop :: "pixels \<Rightarrow> nat \<Rightarrow> bits \<Rightarrow> bits" where
  "extractImprovedLSB_loop data i binary =
     (if i < length data \<and> belowMaxBits data binary then
        extractImprovedLSB_loop data (i + 4) (extractImprovedLSB_pixel data i binary)
      else binary)"
  by pat_completeness auto
termination
  by (relation "measure (\<lambda>(data, i, b). length data - i)") auto

declare extractImprovedLSB_loop.simps [simp del]

definition extractImprovedLSB :: "pixels \<Rightarrow> bits" where
  "extractImprovedLSB data = extractImprovedLSB_loop data 0 []"

section \<open>SpatialPatchBias (Patchwork)\<close>

text \<open>
  The patch origin, as \<open>applyPatchwork\<close> computes it (\<open>patchSize\<close> is 8) and as
  \<open>extractPatchwork\<close> computes it.
\<close>

definition encodePatchOrigin :: "nat \<Rightarrow> nat \<Rightarrow> nat \<Rightarrow> int option \<times> int option" where
  "encodePatchOrigin width height bitIndex =
     (js_rem (int bitIndex * 29) (int width - 8), js_rem (int bitIndex * 37) (int height - 8))"

definition decodePatchOrigin :: "nat \<Rightarrow> nat \<Rightarrow> nat \<Rightarrow> int option \<times> int option" where
  "decodePatchOrigin width height bitIndex =
     (js_rem (int bitIndex * 29) (int width - 8), js_rem (int bitIndex * 37) (int height - 8))"

text \<open>
  \<open>((patchY + y) * width + (patchX + x)) * 4 + 2\<close>, the index of the blue sample;
  \<open>NaN\<close> when a coordinate of the origin is.
\<close>

definition patchBlueIndex :: "int option \<times> int option \<Rightarrow> nat \<Rightarrow> int \<Rightarrow> int \<Rightarrow> int option" where
  "patchBlueIndex origin width x y =
     (case fst origin of None \<Rightarrow> None
      | Some patchX \<Rightarrow>
         (case snd origin of None \<Rightarrow> None
          | Some patchY \<Rightarrow> Some (((patchY + y) * int width + (patchX + x)) * 4 + 2)))"

text \<open>\<open>data[k]\<close> for a computed index: \<open>undefined\<close> for \<open>NaN\<close> and outside the array.\<close>

definition rdAt :: "pixels \<Rightarrow> int option \<Rightarrow> 8 word option" where
  "rdAt data k =
     (case k of None \<Rightarrow> None
      | Some n \<Rightarrow> if 0 \<le> n then rd data (nat n) else None)"

text \<open>
  One pixel of the patch: the blue sample goes up by one below 255 for bit 1, down by one
  above 0 for bit 0; a comparison with \<open>undefined\<close> is false.
\<close>

definition patchworkPixel :: "pixels \<Rightarrow> bool \<Rightarrow> int option \<Rightarrow> pixels" where
  "patchworkPixel data b k =
     (case k of None \<Rightarrow> data
      | Some n \<Rightarrow>
         (case rdAt data k of None \<Rightarrow> data
          | Some v \<Rightarrow>
             (if b then (if v < 255 then data[nat n := v + 1] else data)
              else (if v > 0 then data[nat n := v - 1] else data))))"

definition patchworkPatch :: "pixels \<Rightarrow> bool \<Rightarrow> int option \<times> int option \<Rightarrow> nat \<Rightarrow> pixels" where
  "patchworkPatch data b origin width =
     fold (\<lambda>y d. fold (\<lambda>x d'. patchworkPixel d' b (patchBlueIndex origin width (int x) (int y)))
                     [0..<8] d)
          [0..<8] data"

definition applyPatchwork :: "pixels \<Rightarrow> bits \<Rightarrow> nat \<Rightarrow> nat \<Rightarrow> pixels" where
  "applyPatchwork data binaryMessage width height =
     fold (\<lambda>bitIndex d.
             patchworkPatch d (binaryMessage ! bitIndex) (encodePatchOrigin width height bitIndex) width)
          [0..<length binaryMessage] data"

text \<open>The sum of the blue samples of the patch, \<open>NaN\<close> once a sample is \<open>undefined\<close>.\<close>

definition patchBlueSum :: "pixels \<Rightarrow> int option \<times> int option \<Rightarrow> nat \<Rightarrow> number" where
  "patchBlueSum data origin width =
     fold (\<lambda>y s. fold (\<lambda>x s'. jadd s' (toNumber (rdAt data (patchBlueIndex origin width (int x) (int y)))))
                     [0..<8] s)
          [0..<8] (Some 0)"

text \<open>
  The border ring: offsets from -1 to 8, the patch itself skipped, and only positions
  inside the image (a comparison with \<open>NaN\<close> is false). The result is the sum and the count.
\<close>

definition inImage :: "int option \<times> int option \<Rightarrow> nat \<Rightarrow> nat \<Rightarrow> int \<Rightarrow> int \<Rightarrow> bool" where
  "inImage origin width height x y =
     (case fst origin of None \<Rightarrow> False
      | Some patchX \<Rightarrow>
         (case snd origin of None \<Rightarrow> False
          | Some patchY \<Rightarrow>
              patchY + y \<ge> 0 \<and> patchY + y < int height \<and> patchX + x \<ge> 0 \<and> patchX + x < int width))"

definition borderStep ::
  "pixels \<Rightarrow> int option \<times> int option \<Rightarrow> nat \<Rightarrow> nat \<Rightarrow> int \<Rightarrow> int \<Rightarrow> number \<times> nat \<Rightarrow> number \<times> nat" where
  "borderStep data origin width height y x acc =
     (if y \<ge> 0 \<and> y < 8 \<and> x \<ge> 0 \<and> x < 8 then acc
      else if inImage origin width height x y then
        (jadd (fst acc) (toNumber (rdAt data (patchBlueIndex origin width x y))), snd acc + 1)
      else acc)"

definition borderSum :: "pixels \<Rightarrow> int option \<times> int option \<Rightarrow> nat \<Rightarrow> nat \<Rightarrow> number \<times> nat" where
  "borderSum data origin width height =
     fold (\<lambda>y acc. fold (\<lambda>x acc'. borderStep data origin width height y x acc') [-1..8] acc)
          [-1..8] (Some 0, 0)"

text \<open>
  The bit of the patch at an origin: the patch average \<open>blueSum / pixelCount\<close> (the count
  is 64) against the border average \<open>surroundingBlueSum / surroundingPixelCount\<close> (the
  patch average itself when the border is empty).
\<close>

definition patchBitAt ::
  "double_ops \<Rightarrow> pixels \<Rightarrow> nat \<Rightarrow> nat \<Rightarrow> int option \<times> int option \<Rightarrow> bool" where
  "patchBitAt ops data width height origin =
     (let blueAvg = ndiv ops (patchBlueSum data origin width) (Some 64);
          border = borderSum data origin width height;
          surroundingBlueAvg =
            (if snd border > 0 then ndiv ops (fst border) (Some (real (snd border)))
             else blueAvg)
      in jgt blueAvg surroundingBlueAvg)"

definition patchBit :: "double_ops \<Rightarrow> pixels \<Rightarrow> nat \<Rightarrow> nat \<Rightarrow> nat \<Rightarrow> bool" where
  "patchBit ops data width height bitIndex =
     patchBitAt ops data width height (decodePatchOrigin width height bitIndex)"

function extractPatchwork_loop ::
  "double_ops \<Rightarrow> pixels \<Rightarrow> nat \<Rightarrow> nat \<Rightarrow> nat \<Rightarrow> bits \<Rightarrow> bits" where
  "extractPatchwork_loop ops data width height bitIndex binary =
     (if bitIndex < 10000 then
        (let binary' = binary @ [patchBit ops data width height bitIndex] in
         if length binary' mod 8 = 0 \<and> length binary' \<ge> 40
            \<and> indexOf (binaryToText binary') terminator \<noteq> None
         then binary'
         else extractPatchwork_loop ops data width height (bitIndex + 1) binary')
      else binary)"
  by pat_completeness auto
termination
  by (relation "measure (\<lambda>(ops, data, w, h, i, b). 10000 - i)") auto

declare extractPatchwork_loop.simps [simp del]

definition extractPatchwork :: "double_ops \<Rightarrow> pixels \<Rightarrow> nat \<Rightarrow> nat \<Rightarrow> bits" where
  "extractPatchwork ops data width height = extractPatchwork_loop ops data width height 0 []"

section \<open>BlockTransform\<close>

type_synonym block = "number list list"

text \<open>
  \<open>Math.cos(((2 * x + 1) * u * Math.PI) / (2 * N))\<close> with \<open>N = 8\<close>: the products of the
  integers are exact.
\<close>

definition dctCos :: "double_ops \<Rightarrow> nat \<Rightarrow> nat \<Rightarrow> real" where
  "dctCos ops x u = dcos ops (ddiv ops (dmul ops (real ((2 * x + 1) * u)) (dpi ops)) (real (2 * 8)))"

text \<open>\<open>u === 0 ? 1 / Math.sqrt(2) : 1\<close>.\<close>

definition dctC :: "double_ops \<Rightarrow> nat \<Rightarrow> real" where
  "dctC ops u = (if u = 0 then ddiv ops 1 (dsqrt ops 2) else 1)"

text \<open>
  \<open>applyDCT\<close>: \<open>sum += block[x][y] * cos * cos\<close> over \<open>x\<close> and \<open>y\<close>, then
  \<open>(1 / 4) * cu * cv * sum\<close>, each operation rounded in turn.
\<close>

definition applyDCT :: "double_ops \<Rightarrow> block \<Rightarrow> block" where
  "applyDCT ops blk =
     map (\<lambda>u. map (\<lambda>v.
            (let sum = fold (\<lambda>x s. fold (\<lambda>y s'.
                               nadd ops s' (nmul ops (nmul ops (blk ! x ! y) (Some (dctCos ops x u)))
                                                     (Some (dctCos ops y v))))
                             [0..<8] s)
                         [0..<8] (Some 0)
             in nmul ops (nmul ops (nmul ops (Some (ddiv ops 1 4)) (Some (dctC ops u)))
                                   (Some (dctC ops v)))
                         sum))
          [0..<8])
       [0..<8]"

text \<open>
  \<open>applyInverseDCT\<close>: \<open>sum += cu * cv * dctCoeffs[u][v] * cos * cos\<close> over \<open>u\<close> and
  \<open>v\<close>, then \<open>(1 / 4) * sum\<close>.
\<close>

definition applyInverseDCT :: "double_ops \<Rightarrow> block \<Rightarrow> block" where
  "applyInverseDCT ops dctCoeffs =
     map (\<lambda>x. map (\<lambda>y.
            (let sum = fold (\<lambda>u s. fold (\<lambda>v s'.
                               nadd ops s'
                                 (nmul ops (nmul ops (nmul ops (Some (dmul ops (dctC ops u) (dctC ops v)))
                                                               (dctCoeffs ! u ! v))
                                                     (Some (dctCos ops x u)))
                                           (Some (dctCos ops y v))))
                             [0..<8] s)
                         [0..<8] (Some 0)
             in nmul ops (Some (ddiv ops 1 4)) sum))
          [0..<8])
       [0..<8]"

definition extractBlock :: "pixels \<Rightarrow> nat \<Rightarrow> nat \<Rightarrow> nat \<Rightarrow> nat \<Rightarrow> block" where
  "extractBlock data width x y channel =
     map (\<lambda>i. map (\<lambda>j. toNumber (rd data (((y + i) * width + (x + j)) * 4 + channel))) [0..<8])
       [0..<8]"

text \<open>\<open>Math.max(0, Math.min(255, Math.round(v)))\<close>; \<open>NaN\<close> stays \<open>NaN\<close>.\<close>

definition clampRound :: "number \<Rightarrow> number" where
  "clampRound v = map_option (\<lambda>r. real_of_int (max 0 (min 255 (js_round r)))) v"

definition writeBlock :: "pixels \<Rightarrow> nat \<Rightarrow> nat \<Rightarrow> nat \<Rightarrow> block \<Rightarrow> nat \<Rightarrow> pixels" where
  "writeBlock data width x y blk channel =
     fold (\<lambda>i d. fold (\<lambda>j d'.
                   d'[((y + i) * width + (x + j)) * 4 + channel := toUint8Clamp (clampRound (blk ! i ! j))])
                 [0..<8] d)
       [0..<8] data"

section \<open>FrequencyCoefficientQuant (DCT)\<close>

definition setCoeff :: "block \<Rightarrow> nat \<Rightarrow> nat \<Rightarrow> number \<Rightarrow> block" where
  "setCoeff c u v val = c[u := (c ! u)[v := val]]"

text \<open>\<open>Math.floor(c / 2) * 2\<close> and \<open>Math.floor(c / 2) * 2 + 1\<close>.\<close>

definition makeEven :: "double_ops \<Rightarrow> number \<Rightarrow> number" where
  "makeEven ops c = map_option (\<lambda>r. dmul ops (real_of_int \<lfloor>ddiv ops r 2\<rfloor>) 2) c"

definition makeOdd :: "double_ops \<Rightarrow> number \<Rightarrow> number" where
  "makeOdd ops c = map_option (\<lambda>r. dadd ops (dmul ops (real_of_int \<lfloor>ddiv ops r 2\<rfloor>) 2) 1) c"

text \<open>
  The metadata block: the DC coefficient made even, then the first 16 digits of the
  message length at rows 1 to 4, columns 0 to 3.
\<close>

definition embedMetadata :: "double_ops \<Rightarrow> block \<Rightarrow> bits \<Rightarrow> block" where
  "embedMetadata ops dctCoeffs messageLengthBinary =
     fold (\<lambda>i c. (let row = i div 4 + 1; col = i mod 4 in
                   if \<not> messageLengthBinary ! i then setCoeff c row col (makeEven ops (c ! row ! col))
                   else setCoeff c row col (makeOdd ops (c ! row ! col))))
       [0..<min 16 (length messageLengthBinary)]
       (setCoeff dctCoeffs 0 0 (makeEven ops (dctCoeffs ! 0 ! 0)))"

definition embedPositions :: "(nat \<times> nat) list" where
  "embedPositions = [(3, 3), (3, 4), (4, 3), (4, 4)]"

text \<open>
  \<open>Math.round(c / quantStep) * quantStep\<close> with \<open>quantStep = 8\<close>, plus
  \<open>Math.floor(quantStep / 2)\<close> for bit 1.
\<close>

definition quantizeCoeff :: "double_ops \<Rightarrow> number \<Rightarrow> bool \<Rightarrow> number" where
  "quantizeCoeff ops c b =
     map_option (\<lambda>r. (let quantized = dmul ops (real_of_int (js_round (ddiv ops r 8))) 8 in
                       if \<not> b then quantized
                       else dadd ops quantized (real_of_int \<lfloor>ddiv ops 8 2\<rfloor>))) c"

text \<open>The loop over the embed positions of one block, while bits are left.\<close>

fun embedBits ::
  "double_ops \<Rightarrow> block \<Rightarrow> bits \<Rightarrow> (nat \<times> nat) list \<Rightarrow> nat \<Rightarrow> block \<times> nat" where
  "embedBits ops dctCoeffs binaryMessage [] bitIndex = (dctCoeffs, bitIndex)"
| "embedBits ops dctCoeffs binaryMessage ((u, v) # ps) bitIndex =
     (if bitIndex < length binaryMessage then
        embedBits ops
          (setCoeff dctCoeffs u v (quantizeCoeff ops (dctCoeffs ! u ! v) (binaryMessage ! bitIndex)))
          binaryMessage ps (bitIndex + 1)
      else (dctCoeffs, bitIndex))"

definition dctMetadataBlock :: "double_ops \<Rightarrow> pixels \<Rightarrow> bits \<Rightarrow> nat \<Rightarrow> pixels" where
  "dctMetadataBlock ops data binaryMessage width =
     (let messageLengthBinary = padStart 16 False (toString2 (length binaryMessage));
          dctCoeffs = embedMetadata ops (applyDCT ops (extractBlock data width 0 0 2)) messageLengthBinary
      in writeBlock data width 0 0 (applyInverseDCT ops dctCoeffs) 2)"

definition dctPayloadBlock ::
  "double_ops \<Rightarrow> pixels \<Rightarrow> bits \<Rightarrow> nat \<Rightarrow> nat \<Rightarrow> nat \<Rightarrow> nat \<Rightarrow> pixels \<times> nat" where
  "dctPayloadBlock ops data binaryMessage width blockX blockY bitIndex =
     (let x = blockX * 8; y = blockY * 8;
          r = embedBits ops (applyDCT ops (extractBlock data width x y 2)) binaryMessage
                embedPositions bitIndex
      in (writeBlock data width x y (applyInverseDCT ops (fst r)) 2, snd r))"

text \<open>
  The block loops of \<open>applyDCTSteganography\<close> as one recursion on \<open>(blockY, blockX)\<close>;
  the test on \<open>bitIndex\<close> is shared by both loops, so the row loop stops when the column
  loop does for lack of bits.
\<close>

function applyDCT_loop ::
  "double_ops \<Rightarrow> pixels \<Rightarrow> bits \<Rightarrow> nat \<Rightarrow> nat \<Rightarrow> nat \<Rightarrow> nat \<Rightarrow> nat \<Rightarrow> nat \<Rightarrow> pixels" where
  "applyDCT_loop ops data binaryMessage width blocksX blocksY blockY blockX bitIndex =
     (if blockY < blocksY \<and> bitIndex < length binaryMessage then
        (if blockX < blocksX \<and> bitIndex < length binaryMessage then
           (if blockY = 0 \<and> blockX = 0 then
              applyDCT_loop ops (dctMetadataBlock ops data binaryMessage width) binaryMessage width
                blocksX blocksY blockY (blockX + 1) bitIndex
            else
              (let r = dctPayloadBlock ops data binaryMessage width blockX blockY bitIndex in
               applyDCT_loop ops (fst r) binaryMessage width blocksX blocksY blockY (blockX + 1) (snd r)))
         else applyDCT_loop ops data binaryMessage width blocksX blocksY (blockY + 1) 0 bitIndex)
      else data)"
  by pat_completeness auto
termination
  by (relation "measures [\<lambda>(ops, d, bm, w, nx, ny, y, x, b). ny - y,
                          \<lambda>(ops, d, bm, w, nx, ny, y, x, b). nx - x]")
     auto

declare applyDCT_loop.simps [simp del]

definition applyDCTSteganography :: "double_ops \<Rightarrow> pixels \<Rightarrow> bits \<Rightarrow> nat \<Rightarrow> nat \<Rightarrow> pixels" where
  "applyDCTSteganography ops data binaryMessage width height =
     applyDCT_loop ops data binaryMessage width (width div 8) (height div 8) 0 0 0"

text \<open>\<open>Math.round(c) % 2 === 0\<close>, false for \<open>NaN\<close>.\<close>

definition roundedIsEven :: "number \<Rightarrow> bool" where
  "roundedIsEven c = (case c of None \<Rightarrow> False | Some r \<Rightarrow> js_rem (js_round r) 2 = Some 0)"

fun extractBits :: "block \<Rightarrow> (nat \<times> nat) list \<Rightarrow> nat \<Rightarrow> bits \<Rightarrow> bits" where
  "extractBits dctCoeffs [] messageLength binary = binary"
| "extractBits dctCoeffs ((u, v) # ps) messageLength binary =
     (if length binary < messageLength then
        extractBits dctCoeffs ps messageLength (binary @ [\<not> roundedIsEven (dctCoeffs ! u ! v)])
      else binary)"

function extractDCT_loop ::
  "double_ops \<Rightarrow> pixels \<Rightarrow> nat \<Rightarrow> nat \<Rightarrow> nat \<Rightarrow> nat \<Rightarrow> nat \<Rightarrow> nat \<Rightarrow> bits \<Rightarrow> bits" where
  "extractDCT_loop ops data width blocksX blocksY messageLength blockY blockX binary =
     (if blockY < blocksY \<and> length binary < messageLength then
        (if blockX < blocksX \<and> length binary < messageLength then
           (if blockY = 0 \<and> blockX = 0 then
              extractDCT_loop ops data width blocksX blocksY messageLength blockY (blockX + 1) binary
            else
              extractDCT_loop ops data width blocksX blocksY messageLength blockY (blockX + 1)
                (extractBits (applyDCT ops (extractBlock data width (blockX * 8) (blockY * 8) 2))
                   embedPositions messageLength binary))
         else extractDCT_loop ops data width blocksX blocksY messageLength (blockY + 1) 0 binary)
      else binary)"
  by pat_completeness auto
termination
  by (relation "measures [\<lambda>(ops, d, w, nx, ny, m, y, x, b). ny - y,
                          \<lambda>(ops, d, w, nx, ny, m, y, x, b). nx - x]")
     auto

declare extractDCT_loop.simps [simp del]

text \<open>
  \<open>extractDCTSteganography\<close>: block (0,0) is read and transformed first; the signature
  test is \<open>Math.round(dc) % 2 !== 0\<close>.
\<close>

definition metadataCoeffs :: "double_ops \<Rightarrow> pixels \<Rightarrow> nat \<Rightarrow> block" where
  "metadataCoeffs ops data width = applyDCT ops (extractBlock data width 0 0 2)"

definition extractDCTSteganography :: "double_ops \<Rightarrow> pixels \<Rightarrow> nat \<Rightarrow> nat \<Rightarrow> error + bits" where
  "extractDCTSteganography ops data width height =
     (let metadctCoeffs = metadataCoeffs ops data width in
      if \<not> roundedIsEven (metadctCoeffs ! 0 ! 0) then Inl SignatureMismatch
      else
        (let messageLengthBinary =
               map (\<lambda>i. \<not> roundedIsEven (metadctCoeffs ! (i div 4 + 1) ! (i mod 4))) [0..<16];
             messageLength = parseInt2 messageLengthBinary
         in Inr (extractDCT_loop ops data width (width div 8) (height div 8) messageLength 0 0 [])))"

section \<open>HistogramPeakShift\<close>

text \<open>Storing an integer into the array: clamped to [0, 255].\<close>

definition clampInt :: "int \<Rightarrow> 8 word" where
  "clampInt n = word_of_int (max 0 (min 255 n))"

text \<open>
  Step 1: the histogram of the blue channel from pixel 32 on. An \<open>undefined\<close> sample
  increments no entry of the 256.
\<close>

function histogramCount :: "pixels \<Rightarrow> nat \<Rightarrow> nat list \<Rightarrow> nat list" where
  "histogramCount data i histogram =
     (if i < length data then
        histogramCount data (i + 4)
          (case rd data (i + 2) of None \<Rightarrow> histogram
           | Some v \<Rightarrow> histogram[unat v := histogram ! unat v + 1])
      else histogram)"
  by pat_completeness auto
termination
  by (relation "measure (\<lambda>(data, i, h). length data - i)") auto

declare histogramCount.simps [simp del]

text \<open>Step 2: the most frequent value, the first one on a tie.\<close>

definition findPeak :: "nat list \<Rightarrow> nat" where
  "findPeak histogram =
     fst (fold (\<lambda>i (peakPoint, peakValue).
                  if histogram ! i > peakValue then (i, histogram ! i) else (peakPoint, peakValue))
            [0..<256] (0, 0))"

text \<open>
  Step 3: the zero point, searched from \<open>Math.max(1, peakPoint - 20)\<close> to
  \<open>Math.min(254, peakPoint + 20)\<close> inclusive.
\<close>

definition findZero :: "nat list \<Rightarrow> nat \<Rightarrow> nat" where
  "findZero histogram peakPoint =
     (let zeroPoint0 = (if peakPoint > 127 then peakPoint - 1 else peakPoint + 1);
          lowerBound = nat (max 1 (int peakPoint - 20));
          upperBound = min 254 (peakPoint + 20)
      in fst (fold (\<lambda>i (zeroPoint, minValue).
                      if i \<noteq> peakPoint \<and> histogram ! i < minValue \<and> histogram ! i > 0
                      then (i, histogram ! i) else (zeroPoint, minValue))
                [lowerBound..<upperBound + 1] (zeroPoint0, histogram ! zeroPoint0)))"

text \<open>Step 4: the shift of the values strictly between peak and zero point.\<close>

definition shiftPixel :: "pixels \<Rightarrow> nat \<Rightarrow> nat \<Rightarrow> bool \<Rightarrow> nat \<Rightarrow> pixels" where
  "shiftPixel data peakPoint zeroPoint shiftRight i =
     (case rd data (i + 2) of None \<Rightarrow> data
      | Some v \<Rightarrow>
         (let pixelValue = unat v in
          if shiftRight then
            (if pixelValue > peakPoint \<and> pixelValue < zeroPoint
             then data[i + 2 := clampInt (int pixelValue + 1)] else data)
          else
            (if pixelValue > zeroPoint \<and> pixelValue < peakPoint
             then data[i + 2 := clampInt (int pixelValue - 1)] else data)))"

function histogramShift :: "pixels \<Rightarrow> nat \<Rightarrow> nat \<Rightarrow> bool \<Rightarrow> nat \<Rightarrow> pixels" where
  "histogramShift data peakPoint zeroPoint shiftRight i =
     (if i < length data then
        histogramShift (shiftPixel data peakPoint zeroPoint shiftRight i) peakPoint zeroPoint
          shiftRight (i + 4)
      else data)"
  by pat_completeness auto
termination
  by (relation "measure (\<lambda>(data, p, z, s, i). length data - i)")
     (auto simp: shiftPixel_def Let_def split: option.splits)

declare histogramShift.simps [simp del]

text \<open>Step 5: a pixel at the peak takes the next bit; bit 1 moves it off the peak.\<close>

function histogramEmbed :: "pixels \<Rightarrow> bits \<Rightarrow> nat \<Rightarrow> bool \<Rightarrow> nat \<Rightarrow> nat \<Rightarrow> pixels" where
  "histogramEmbed data binaryMessage peakPoint shiftRight i bitIndex =
     (if i < length data \<and> bitIndex < length binaryMessage then
        (if map_option unat (rd data (i + 2)) = Some peakPoint then
           histogramEmbed
             (if binaryMessage ! bitIndex
              then data[i + 2 := clampInt (if shiftRight then int peakPoint + 1 else int peakPoint - 1)]
              else data)
             binaryMessage peakPoint shiftRight (i + 4) (bitIndex + 1)
         else histogramEmbed data binaryMessage peakPoint shiftRight (i + 4) bitIndex)
      else data)"
  by pat_completeness auto
termination
  by (relation "measure (\<lambda>(data, bm, p, s, i, b). length data - i)") auto

declare histogramEmbed.simps [simp del]

text \<open>
  The metadata in the blue samples of the first pixels: the signature in pixels 0 to 7,
  then peak point, zero point, direction, and the length in pixels 11 and 12.
  \<open>binaryMessage.length / 8\<close> is a real quotient.
\<close>

definition histogramMetadata :: "pixels \<Rightarrow> nat \<Rightarrow> nat \<Rightarrow> bool \<Rightarrow> nat \<Rightarrow> pixels" where
  "histogramMetadata data peakPoint zeroPoint shiftRight messageBits =
     (let d1 = fold (\<lambda>i d. d[i * 4 + 2 := clampInt ((int i + 1) * 10)]) [0..<8] data;
          d2 = d1[8 * 4 + 2 := clampInt (int peakPoint)];
          d3 = d2[9 * 4 + 2 := clampInt (int zeroPoint)];
          d4 = d3[10 * 4 + 2 := (if shiftRight then 1 else 0)];
          d5 = d4[11 * 4 + 2 := toUint8Clamp (Some (min 255 (real messageBits / 8)))];
          d6 = (if real messageBits / 8 > 255
                then d5[12 * 4 + 2 := toUint8Clamp (Some (real_of_int \<lfloor>real messageBits / 8 / 256\<rfloor>))]
                else d5[12 * 4 + 2 := 0])
      in d6)"

definition applyHistogramShifting :: "pixels \<Rightarrow> bits \<Rightarrow> pixels" where
  "applyHistogramShifting data binaryMessage =
     (let histogram = histogramCount data (32 * 4) (replicate 256 0);
          peakPoint = findPeak histogram;
          zeroPoint = findZero histogram peakPoint;
          shiftRight = (zeroPoint > peakPoint);
          shifted = histogramShift data peakPoint zeroPoint shiftRight (32 * 4);
          embedded = histogramEmbed shifted binaryMessage peakPoint shiftRight (32 * 4) 0
      in histogramMetadata embedded peakPoint zeroPoint shiftRight (length binaryMessage))"

text \<open>
  Decoding. The length in bits is \<open>(data[46] + data[50] * 256) * 8\<close>, \<open>NaN\<close> when one of
  the two samples is \<open>undefined\<close>; a comparison with \<open>NaN\<close> is false and
  \<open>substring(0, NaN)\<close> is empty.
\<close>

definition histogramLength :: "pixels \<Rightarrow> nat option" where
  "histogramLength data =
     (case rd data (11 * 4 + 2) of None \<Rightarrow> None
      | Some lo \<Rightarrow>
         (case rd data (12 * 4 + 2) of None \<Rightarrow> None
          | Some hi \<Rightarrow> Some ((unat lo + unat hi * 256) * 8)))"

definition belowLength :: "bits \<Rightarrow> nat option \<Rightarrow> bool" where
  "belowLength binary messageLength =
     (case messageLength of None \<Rightarrow> False | Some n \<Rightarrow> length binary < n)"

text \<open>\<open>pixelValue === peakPoint + d\<close> for \<open>d\<close> 1 or -1: false when either is \<open>undefined\<close>.\<close>

definition isPeakPlus :: "nat option \<Rightarrow> nat option \<Rightarrow> int \<Rightarrow> bool" where
  "isPeakPlus pixelValue peakPoint d =
     (case pixelValue of None \<Rightarrow> False
      | Some v \<Rightarrow> (case peakPoint of None \<Rightarrow> False | Some p \<Rightarrow> int v = int p + d))"

function histogramExtract_loop ::
  "pixels \<Rightarrow> nat option \<Rightarrow> bool \<Rightarrow> nat option \<Rightarrow> nat \<Rightarrow> bits \<Rightarrow> bits" where
  "histogramExtract_loop data peakPoint shiftRight messageLength i binary =
     (if i < length data \<and> belowLength binary messageLength then
        (let pixelValue = map_option unat (rd data (i + 2)) in
         if pixelValue = peakPoint then
           histogramExtract_loop data peakPoint shiftRight messageLength (i + 4) (binary @ [False])
         else if (shiftRight \<and> isPeakPlus pixelValue peakPoint 1)
                 \<or> (\<not> shiftRight \<and> isPeakPlus pixelValue peakPoint (- 1)) then
           histogramExtract_loop data peakPoint shiftRight messageLength (i + 4) (binary @ [True])
         else histogramExtract_loop data peakPoint shiftRight messageLength (i + 4) binary)
      else binary)"
  by pat_completeness auto
termination
  by (relation "measure (\<lambda>(data, p, s, m, i, b). length data - i)") auto

declare histogramExtract_loop.simps [simp del]

definition validSignature :: "pixels \<Rightarrow> bool" where
  "validSignature data = list_all (\<lambda>i. map_option unat (rd data (i * 4 + 2)) = Some ((i + 1) * 10)) [0..<8]"

definition extractHistogramShifting :: "pixels \<Rightarrow> error + bits" where
  "extractHistogramShifting data =
     (if \<not> validSignature data then Inl SignatureMismatch
      else
        (let peakPoint = map_option unat (rd data (8 * 4 + 2));
             shiftRight = (rd data (10 * 4 + 2) = Some 1);
             messageLength = histogramLength data;
             binary = histogramExtract_loop data peakPoint shiftRight messageLength (32 * 4) []
         in Inr (take (case messageLength of None \<Rightarrow> 0 | Some n \<Rightarrow> n) binary)))"

section \<open>Encoding and decoding pipelines\<close>

text \<open>
  \<open>processEncoding\<close> on the buffer that \<open>getImageData\<close> returned. The result is the error
  thrown, if any, and the content of the buffer when the function ends. The capacity
  test \<open>binaryMessage.length > data.length * 0.75\<close> comes before the dispatch.
\<close>

definition processEncoding ::
  "double_ops \<Rightarrow> pixels \<Rightarrow> nat \<Rightarrow> nat \<Rightarrow> jsstring \<Rightarrow> string \<Rightarrow> error option \<times> pixels" where
  "processEncoding ops data width height message technique =
     (let messageWithTerminator = message @ terminator;
          binaryMessage = textToBinary messageWithTerminator;
          maxBits = real (length data) * 0.75
      in if real (length binaryMessage) > maxBits then (Some CapacityExceeded, data)
         else if technique = ''lsb'' then (None, applyLSB data binaryMessage)
         else if technique = ''lsb-improved'' then (None, applyImprovedLSB data binaryMessage)
         else if technique = ''patchwork'' then (None, applyPatchwork data binaryMessage width height)
         else if technique = ''dct'' then (None, applyDCTSteganography ops data binaryMessage width height)
         else if technique = ''histogram'' then (None, applyHistogramShifting data binaryMessage)
         else (Some UnknownTechnique, data))"

text \<open>The bit sequence that the selected technique's decode produces.\<close>

definition extractBinary :: "double_ops \<Rightarrow> pixels \<Rightarrow> nat \<Rightarrow> nat \<Rightarrow> string \<Rightarrow> error + bits" where
  "extractBinary ops data width height technique =
     (if technique = ''lsb'' then Inr (extractLSB data)
      else if technique = ''lsb-improved'' then Inr (extractImprovedLSB data)
      else if technique = ''patchwork'' then Inr (extractPatchwork ops data width height)
      else if technique = ''dct'' then extractDCTSteganography ops data width height
      else if technique = ''histogram'' then extractHistogramShifting data
      else Inl UnknownTechnique)"

definition processDecoding ::
  "double_ops \<Rightarrow> pixels \<Rightarrow> nat \<Rightarrow> nat \<Rightarrow> string \<Rightarrow> error + jsstring" where
  "processDecoding ops data width height technique =
     (case extractBinary ops data width height technique of
        Inl e \<Rightarrow> Inl e
      | Inr binaryMessage \<Rightarrow>
          (let fullMessage = binaryToText binaryMessage in
           case indexOf fullMessage terminator of
             None \<Rightarrow> Inr fullMessage
           | Some terminatorIndex \<Rightarrow> Inr (take terminatorIndex fullMessage)))"

section \<open>Notions used in the statements\<close>

text \<open>
  The arithmetic without rounding, an instance of the parameter to state closed examples
  at. It is used on inputs where no operation of the code rounds.
\<close>

definition idealOps :: double_ops where
  "idealOps = \<lparr>dadd = (+), dmul = (*), ddiv = (/), dsqrt = sqrt, dcos = cos, dpi = pi\<rparr>"

text \<open>
  Facts of double arithmetic that hold without rounding: a product with zero is zero, a
  product with one is the other factor, zero divided by a non-zero number is zero,
  \<open>Math.cos(0)\<close> is 1, and the sum of two non-negative integers is exact below
  \<open>2\<^sup>5\<^sup>3\<close>.
\<close>

definition exactLaws :: "double_ops \<Rightarrow> bool" where
  "exactLaws ops \<longleftrightarrow>
     (\<forall>x. dmul ops 0 x = 0) \<and> (\<forall>x. dmul ops x 0 = 0) \<and> (\<forall>x. dmul ops x 1 = x) \<and>
     (\<forall>x. x \<noteq> 0 \<longrightarrow> ddiv ops 0 x = 0) \<and> dcos ops 0 = 1 \<and>
     (\<forall>a b :: nat. a + b < 2 ^ 53 \<longrightarrow> dadd ops (real a) (real b) = real (a + b))"


text \<open>
  The factor \<open>(1 / 4) * cu * cv\<close> of the DC coefficient, and the sum of the 64 blue
  samples of block (0,0).
\<close>

definition dcFactor :: "double_ops \<Rightarrow> real" where
  "dcFactor ops = dmul ops (dmul ops (ddiv ops 1 4) (dctC ops 0)) (dctC ops 0)"

definition blueSum00 :: "pixels \<Rightarrow> nat \<Rightarrow> nat" where
  "blueSum00 data width =
     (\<Sum>i\<leftarrow>[0..<8]. \<Sum>j\<leftarrow>[0..<8]. unat (data ! ((i * width + j) * 4 + 2)))"

text \<open>The pattern occurs in the string at position \<open>k\<close>.\<close>

definition matchesAt :: "jsstring \<Rightarrow> jsstring \<Rightarrow> nat \<Rightarrow> bool" where
  "matchesAt s pat k \<longleftrightarrow> k + length pat \<le> length s \<and> take (length pat) (drop k s) = pat"

text \<open>
  Two buffers of the same length that agree at every index outside a set; the indices of
  the blue samples; the blue samples of the pixels inside a grid of complete 8 by 8 blocks.
\<close>

definition agreeOutside :: "nat set \<Rightarrow> pixels \<Rightarrow> pixels \<Rightarrow> bool" where
  "agreeOutside S d d' \<longleftrightarrow> length d' = length d \<and> (\<forall>k. k \<notin> S \<longrightarrow> d' ! k = d ! k)"

definition blueIndices :: "nat set" where
  "blueIndices = {k. k mod 4 = 2}"

definition gridIndices :: "nat \<Rightarrow> nat \<Rightarrow> nat \<Rightarrow> nat set" where
  "gridIndices width blocksX blocksY =
     {k. \<exists>px py. px < 8 * blocksX \<and> py < 8 * blocksY \<and> k = (py * width + px) * 4 + 2}"

text \<open>The block whose 64 entries are 0.\<close>

definition zeroBlock :: block where
  "zeroBlock = replicate 8 (replicate 8 (Some 0))"

section \<open>Folds and maps\<close>

lemma fold_fixed: "(\<And>x. x \<in> set xs \<Longrightarrow> f x a = a) \<Longrightarrow> fold f xs a = a"
  by (induction xs) simp_all

lemma fold_absorb:
  assumes "x0 \<in> set xs" and "\<And>s. f x0 s = z" and "\<And>x. f x z = z"
  shows "fold f xs s = z"
  using assms(1)
proof (induction xs arbitrary: s)
  case Nil
  then show ?case by simp
next
  case (Cons x xs)
  show ?case
  proof (cases "x = x0")
    case True
    then have "fold f (x # xs) s = fold f xs z" by (simp add: assms(2))
    also have "\<dots> = z" by (rule fold_fixed) (rule assms(3))
    finally show ?thesis .
  next
    case False
    with Cons.prems have "x0 \<in> set xs" by simp
    then show ?thesis by (simp add: Cons.IH)
  qed
qed

lemma map_const_replicate: "(\<And>x. x \<in> set xs \<Longrightarrow> f x = c) \<Longrightarrow> map f xs = replicate (length xs) c"
  by (induction xs) simp_all

section \<open>Properties of the BitCodec\<close>

lemma parseInt2_snoc: "parseInt2 (bs @ [b]) = 2 * parseInt2 bs + of_bool b"
  by (simp add: parseInt2_def)

lemma parseInt2_toString2: "parseInt2 (toString2 n) = n"
proof (induction n rule: toString2.induct)
  case (1 n)
  show ?case
  proof (cases "n < 2")
    case True
    then have "n = 0 \<or> n = 1" by auto
    then show ?thesis
      by (auto simp: toString2.simps [of n] parseInt2_def)
  next
    case False
    with 1 have "parseInt2 (toString2 (n div 2)) = n div 2" by simp
    with False show ?thesis
      by (subst toString2.simps) (auto simp add: parseInt2_snoc of_bool_def, presburger+)
  qed
qed

lemma length_toString2: "n < 2 ^ k \<Longrightarrow> 0 < k \<Longrightarrow> length (toString2 n) \<le> k"
proof (induction n arbitrary: k rule: toString2.induct)
  case (1 n)
  show ?case
  proof (cases "n < 2")
    case True
    with 1(3) show ?thesis by (simp add: toString2.simps [of n])
  next
    case False
    then obtain k' where k: "k = Suc k'" "0 < k'"
      using 1(2,3) by (cases k; cases "k - 1") auto
    with 1(2) have "n div 2 < 2 ^ k'" by auto
    with 1(1) [OF False this] k False show ?thesis
      by (subst toString2.simps) simp
  qed
qed

lemma parseInt2_replicate_False: "parseInt2 (replicate m False @ bs) = parseInt2 bs"
proof -
  have "foldl (\<lambda>acc b. 2 * acc + of_bool b) (0::nat) (replicate m False) = 0"
    by (induction m) simp_all
  then show ?thesis by (simp add: parseInt2_def)
qed

lemma byte_of_charCode:
  assumes "c \<le> 255"
  shows "length (padStart 8 False (toString2 c)) = 8"
    and "parseInt2 (padStart 8 False (toString2 c)) = c"
proof -
  from assms have "c < 2 ^ 8" by simp
  then have "length (toString2 c) \<le> 8" by (rule length_toString2) simp
  then show "length (padStart 8 False (toString2 c)) = 8"
    by (simp add: padStart_def)
  show "parseInt2 (padStart 8 False (toString2 c)) = c"
    by (simp add: padStart_def parseInt2_replicate_False parseInt2_toString2)
qed

lemma binaryToText_byte:
  "length byte = 8 \<Longrightarrow>
   binaryToText (byte @ rest) = fromCharCode (parseInt2 byte) # binaryToText rest"
  by (subst binaryToText.simps) auto

lemma binaryToText_textToBinary_append:
  "\<forall>c \<in> set s. c \<le> 255 \<Longrightarrow> binaryToText (textToBinary s @ rest) = s @ binaryToText rest"
proof (induction s)
  case Nil
  then show ?case by simp
next
  case (Cons c s)
  then have c: "c \<le> 255" by simp
  from Cons show ?case
    by (simp add: binaryToText_byte byte_of_charCode [OF c] fromCharCode_def)
qed

lemma binaryToText_Nil: "binaryToText [] = []"
  by (simp add: binaryToText.simps)

text \<open>
  C9: for every string whose code units are all at most 255, converting to the bit string
  and back gives the string again.
\<close>

theorem binaryToText_textToBinary:
  "\<forall>c \<in> set s. c \<le> 255 \<Longrightarrow> binaryToText (textToBinary s) = s"
  using binaryToText_textToBinary_append [of s "[]"] by (simp add: binaryToText_Nil)

theorem binaryToText_textToBinary_witness:
  "list_all (\<lambda>c. c \<le> 255) [104, 105, 167 :: nat] \<and>
   binaryToText (textToBinary [104, 105, 167]) = [104, 105, 167]"
  using binaryToText_textToBinary [of "[104, 105, 167]"] by simp

lemma length_textToBinary_ge: "8 * length s \<le> length (textToBinary s)"
  by (induction s) (auto simp: padStart_def)

section \<open>The capacity test\<close>

text \<open>
  C1: encode fails with CapacityExceeded exactly when the bit length of the payload with
  its terminator exceeds 0.75 times the buffer length, and then the buffer is as it was.
\<close>

theorem processEncoding_capacity:
  "(fst (processEncoding ops data w h message technique) = Some CapacityExceeded \<longleftrightarrow>
      real (length (textToBinary (message @ terminator))) > 0.75 * real (length data)) \<and>
   (real (length (textToBinary (message @ terminator))) > 0.75 * real (length data) \<longrightarrow>
      processEncoding ops data w h message technique = (Some CapacityExceeded, data))"
  by (simp add: processEncoding_def Let_def)

theorem processEncoding_capacity_witness:
  "processEncoding idealOps [1, 2, 3, 255] 1 1 [104, 105] ''lsb''
     = (Some CapacityExceeded, [1, 2, 3, 255])"
proof -
  have "8 * length ([104, 105] @ terminator) \<le> length (textToBinary ([104, 105] @ terminator))"
    by (rule length_textToBinary_ge)
  then have "real (length (textToBinary ([104, 105] @ terminator))) > 0.75 * real (length [1, 2, 3, 255 :: 8 word])"
    by (simp add: terminator_def)
  with processEncoding_capacity [of idealOps "[1, 2, 3, 255]" 1 1 "[104, 105]" "''lsb''"]
  show ?thesis by blast
qed

section \<open>The terminator on decode\<close>

lemma matchesAt_0: "matchesAt s pat 0 \<longleftrightarrow> take (length pat) s = pat"
proof
  assume "matchesAt s pat 0"
  then show "take (length pat) s = pat" by (simp add: matchesAt_def)
next
  assume t: "take (length pat) s = pat"
  then have "length (take (length pat) s) = length pat" by simp
  then have "length pat \<le> length s" by simp
  with t show "matchesAt s pat 0" by (simp add: matchesAt_def)
qed

lemma matchesAt_Suc: "matchesAt (c # s) pat (Suc k) \<longleftrightarrow> matchesAt s pat k"
  by (simp add: matchesAt_def)

lemma all_nat_0_Suc: "(\<forall>k::nat. P k) \<longleftrightarrow> P 0 \<and> (\<forall>k. P (Suc k))"
proof
  assume "\<forall>k. P k"
  then show "P 0 \<and> (\<forall>k. P (Suc k))" by simp
next
  assume a: "P 0 \<and> (\<forall>k. P (Suc k))"
  show "\<forall>k. P k"
  proof
    fix k
    from a show "P k" by (cases k) simp_all
  qed
qed

lemma indexOf_None: "indexOf s pat = None \<longleftrightarrow> (\<forall>k. \<not> matchesAt s pat k)"
proof (induction s)
  case Nil
  then show ?case by (auto simp: matchesAt_def)
next
  case (Cons c s)
  have "(\<forall>k. \<not> matchesAt (c # s) pat k)
      \<longleftrightarrow> take (length pat) (c # s) \<noteq> pat \<and> (\<forall>k. \<not> matchesAt s pat k)"
    by (subst all_nat_0_Suc) (simp only: matchesAt_0 matchesAt_Suc)
  with Cons show ?case by simp
qed

lemma indexOf_Some:
  "indexOf s pat = Some k \<longleftrightarrow> matchesAt s pat k \<and> (\<forall>j<k. \<not> matchesAt s pat j)"
proof (induction s arbitrary: k)
  case Nil
  then show ?case by (auto simp: matchesAt_def)
next
  case (Cons c s)
  show ?case
  proof (cases k)
    case 0
    then show ?thesis by (simp add: matchesAt_0)
  next
    case (Suc k')
    have "indexOf (c # s) pat = Some (Suc k')
        \<longleftrightarrow> take (length pat) (c # s) \<noteq> pat \<and> indexOf s pat = Some k'"
      by auto
    also have "\<dots> \<longleftrightarrow> \<not> matchesAt (c # s) pat 0
          \<and> matchesAt s pat k' \<and> (\<forall>j<k'. \<not> matchesAt s pat j)"
      by (simp only: Cons.IH matchesAt_0)
    also have "\<dots> \<longleftrightarrow> matchesAt (c # s) pat (Suc k')
          \<and> (\<forall>j<Suc k'. \<not> matchesAt (c # s) pat j)"
      by (simp only: All_less_Suc2 matchesAt_Suc) blast
    finally show ?thesis by (simp only: Suc)
  qed
qed

text \<open>The first occurrence is unique.\<close>

lemma first_match_unique:
  assumes "matchesAt s pat i" and "\<forall>j<i. \<not> matchesAt s pat j"
    and "matchesAt s pat k" and "\<forall>j<k. \<not> matchesAt s pat j"
  shows "k = i"
proof (rule ccontr)
  assume "k \<noteq> i"
  then have "k < i \<or> i < k" by arith
  with assms show False by blast
qed

text \<open>The loop of \<open>extractLSB\<close>, one case at a time.\<close>

lemma extractLSB_loop_read:
  "i < length data \<Longrightarrow> belowMaxBits data binary \<Longrightarrow> j < 3 \<Longrightarrow>
   extractLSB_loop data i j binary
     = extractLSB_loop data i (j + 1) (binary @ [toInt32 (rd data (i + j)) AND 0x01 = 1])"
  by (subst extractLSB_loop.simps) simp

lemma extractLSB_loop_next:
  "i < length data \<Longrightarrow> belowMaxBits data binary \<Longrightarrow> \<not> j < 3 \<Longrightarrow>
   extractLSB_loop data i j binary = extractLSB_loop data (i + 4) 0 binary"
  by (subst extractLSB_loop.simps) simp

lemma extractLSB_loop_stop:
  "\<not> (i < length data \<and> belowMaxBits data binary) \<Longrightarrow> extractLSB_loop data i j binary = binary"
  by (subst extractLSB_loop.simps) auto

lemma parseInt2_less: "parseInt2 bs < 2 ^ length bs"
proof (induction bs rule: rev_induct)
  case Nil
  show ?case by (simp add: parseInt2_def)
next
  case (snoc b bs)
  have "of_bool b \<le> (1::nat)" by simp
  with snoc have "2 * parseInt2 bs + of_bool b < 2 * 2 ^ length bs" by linarith
  then show ?case by (simp add: parseInt2_snoc)
qed

lemma fromCharCode_byte: "length byte \<le> 8 \<Longrightarrow> fromCharCode (parseInt2 byte) = parseInt2 byte"
proof -
  assume "length byte \<le> 8"
  then have "(2::nat) ^ length byte \<le> 2 ^ 8" by (intro power_increasing) simp_all
  with parseInt2_less [of byte] have "parseInt2 byte < 65536" by simp
  then show ?thesis by (simp add: fromCharCode_def)
qed

text \<open>
  The text that \<open>binaryToText\<close> rebuilds: one character for every complete group of 8
  bits, with the value of the group read as a binary numeral.
\<close>

lemma binaryToText_chars:
  "length (binaryToText binary) = length binary div 8 \<and>
   (\<forall>k<length binary div 8. binaryToText binary ! k = parseInt2 (take 8 (drop (8 * k) binary)))"
proof (induction binary rule: binaryToText.induct)
  case (1 binary)
  show ?case
  proof (cases "length binary < 8")
    case True
    then show ?thesis by (subst (1 2) binaryToText.simps) (simp add: Let_def)
  next
    case False
    then have ne: "binary \<noteq> []" and l8: "\<not> length (take 8 binary) < 8" by auto
    from 1 [OF ne refl l8]
    have ih: "length (binaryToText (drop 8 binary)) = length (drop 8 binary) div 8"
      "\<And>k. k < length (drop 8 binary) div 8 \<Longrightarrow>
         binaryToText (drop 8 binary) ! k = parseInt2 (take 8 (drop (8 * k) (drop 8 binary)))"
      by simp_all
    have eq: "binaryToText binary
        = parseInt2 (take 8 binary) # binaryToText (drop 8 binary)"
      using ne l8 by (subst binaryToText.simps) (simp add: Let_def fromCharCode_byte)
    from False have "length binary = length (drop 8 binary) + 8" by simp
    then have d: "length binary div 8 = Suc (length (drop 8 binary) div 8)"
      by (simp only: div_add_self2)
    have "binaryToText binary ! k = parseInt2 (take 8 (drop (8 * k) binary))"
      if "k < length binary div 8" for k
    proof (cases k)
      case 0
      then show ?thesis by (simp add: eq)
    next
      case (Suc k')
      with that d have "k' < length (drop 8 binary) div 8" by simp
      then have "binaryToText (drop 8 binary) ! k'
          = parseInt2 (take 8 (drop (8 * k') (drop 8 binary)))" by (rule ih(2))
      with Suc show ?thesis by (simp add: eq add.commute)
    qed
    with ih(1) d show ?thesis by (simp add: eq)
  qed
qed


lemma binaryToText_Cons8:
  "binaryToText (b7 # b6 # b5 # b4 # b3 # b2 # b1 # b0 # rest)
     = fromCharCode (parseInt2 [b7, b6, b5, b4, b3, b2, b1, b0]) # binaryToText rest"
  using binaryToText_byte [of "[b7, b6, b5, b4, b3, b2, b1, b0]" rest] by simp

lemma binaryToText_short: "length binary < 8 \<Longrightarrow> binaryToText binary = []"
  by (subst binaryToText.simps) (simp add: Let_def)

text \<open>
  C7: whatever bit sequence the technique's decode produces, the pipeline rebuilds the
  text from it, one character for every complete group of 8 bits; when the marker (code
  units 167, 69, 78, 68, 167) occurs nowhere in that text the whole text is returned, and
  otherwise the text cut at the first position where the marker occurs. No error is
  raised in either case.
\<close>

theorem processDecoding_terminator:
  assumes "extractBinary ops data w h technique = Inr binary"
  shows "length (binaryToText binary) = length binary div 8 \<and>
         (\<forall>k<length binary div 8.
            binaryToText binary ! k = parseInt2 (take 8 (drop (8 * k) binary))) \<and>
         ((\<forall>k. \<not> matchesAt (binaryToText binary) [167, 69, 78, 68, 167] k) \<longrightarrow>
            processDecoding ops data w h technique = Inr (binaryToText binary)) \<and>
         (\<forall>k. matchesAt (binaryToText binary) [167, 69, 78, 68, 167] k
               \<and> (\<forall>j<k. \<not> matchesAt (binaryToText binary) [167, 69, 78, 68, 167] j) \<longrightarrow>
            processDecoding ops data w h technique = Inr (take k (binaryToText binary)))"
proof -
  let ?text = "binaryToText binary"
  have t: "terminator = [167, 69, 78, 68, 167]" by (simp add: terminator_def)
  have branches: "((\<forall>k. \<not> matchesAt ?text terminator k) \<longrightarrow>
            processDecoding ops data w h technique = Inr ?text) \<and>
         (\<forall>k. matchesAt ?text terminator k \<and> (\<forall>j<k. \<not> matchesAt ?text terminator j) \<longrightarrow>
            processDecoding ops data w h technique = Inr (take k ?text))"
  proof (cases "indexOf ?text terminator")
    case None
    then have none: "\<forall>k. \<not> matchesAt ?text terminator k"
      by (rule indexOf_None [THEN iffD1])
    from assms None have "processDecoding ops data w h technique = Inr ?text"
      by (simp add: processDecoding_def)
    with none show ?thesis by blast
  next
    case (Some i)
    then have "matchesAt ?text terminator i \<and> (\<forall>j<i. \<not> matchesAt ?text terminator j)"
      by (rule indexOf_Some [THEN iffD1])
    then have i: "matchesAt ?text terminator i" "\<forall>j<i. \<not> matchesAt ?text terminator j"
      by simp_all
    from assms Some have r: "processDecoding ops data w h technique = Inr (take i ?text)"
      by (simp add: processDecoding_def)
    have "k = i" if "matchesAt ?text terminator k" "\<forall>j<k. \<not> matchesAt ?text terminator j" for k
      using i that by (rule first_match_unique)
    with r have "\<forall>k. matchesAt ?text terminator k \<and> (\<forall>j<k. \<not> matchesAt ?text terminator j) \<longrightarrow>
            processDecoding ops data w h technique = Inr (take k ?text)"
      by blast
    with i(1) show ?thesis by blast
  qed
  from binaryToText_chars [of binary] branches show ?thesis
    unfolding t by blast
qed

text \<open>
  Two buffers read by the bit-plane decoder. The 16 pixels of the first hold the 48 bits of
  \<open>A\<section>END\<section>\<close>: the text is cut at position 1. The 3 pixels of the second hold 9
  bits: one character and no marker, and the character is returned.
\<close>

theorem processDecoding_terminator_witness:
  "extractBinary idealOps
     [200, 201, 200, 255, 200, 200, 200, 255, 200, 201, 201, 255, 200, 201, 200, 255,
      200, 201, 201, 255, 201, 200, 201, 255, 200, 200, 200, 255, 201, 200, 201, 255,
      200, 201, 200, 255, 200, 201, 201, 255, 201, 200, 200, 255, 201, 200, 200, 255,
      200, 201, 200, 255, 200, 201, 200, 255, 201, 200, 200, 255, 201, 201, 201, 255] 4 4 ''lsb''
     = Inr [False, True, False, False, False, False, False, True,
            True, False, True, False, False, True, True, True,
            False, True, False, False, False, True, False, True,
            False, True, False, False, True, True, True, False,
            False, True, False, False, False, True, False, False,
            True, False, True, False, False, True, True, True] \<and>
   processDecoding idealOps
     [200, 201, 200, 255, 200, 200, 200, 255, 200, 201, 201, 255, 200, 201, 200, 255,
      200, 201, 201, 255, 201, 200, 201, 255, 200, 200, 200, 255, 201, 200, 201, 255,
      200, 201, 200, 255, 200, 201, 201, 255, 201, 200, 200, 255, 201, 200, 200, 255,
      200, 201, 200, 255, 200, 201, 200, 255, 201, 200, 200, 255, 201, 201, 201, 255] 4 4 ''lsb''
     = Inr [65] \<and>
   extractBinary idealOps [90, 91, 91, 255, 90, 91, 90, 255, 90, 90, 91, 255] 3 1 ''lsb''
     = Inr [False, True, True, False, True, False, False, False, True] \<and>
   processDecoding idealOps [90, 91, 91, 255, 90, 91, 90, 255, 90, 90, 91, 255] 3 1 ''lsb''
     = Inr [104]"
proof -
  let ?buf = "[200, 201, 200, 255, 200, 200, 200, 255, 200, 201, 201, 255, 200, 201, 200, 255,
      200, 201, 201, 255, 201, 200, 201, 255, 200, 200, 200, 255, 201, 200, 201, 255,
      200, 201, 200, 255, 200, 201, 201, 255, 201, 200, 200, 255, 201, 200, 200, 255,
      200, 201, 200, 255, 200, 201, 200, 255, 201, 200, 200, 255, 201, 201, 201, 255] :: pixels"
  let ?bits = "[False, True, False, False, False, False, False, True,
            True, False, True, False, False, True, True, True,
            False, True, False, False, False, True, False, True,
            False, True, False, False, True, True, True, False,
            False, True, False, False, False, True, False, False,
            True, False, True, False, False, True, True, True]"
  let ?buf2 = "[90, 91, 91, 255, 90, 91, 90, 255, 90, 90, 91, 255] :: pixels"
  let ?bits2 = "[False, True, True, False, True, False, False, False, True]"
  have "extractLSB ?buf = ?bits"
    by (simp add: extractLSB_def extractLSB_loop_read extractLSB_loop_next extractLSB_loop_stop
          belowMaxBits_def rd_def toInt32_def)
  then have e: "extractBinary idealOps ?buf 4 4 ''lsb'' = Inr ?bits"
    by (simp add: extractBinary_def)
  have r1: "binaryToText ?bits = [65, 167, 69, 78, 68, 167]"
    by (simp add: binaryToText_Cons8 binaryToText_short parseInt2_def fromCharCode_def)
  have "matchesAt (binaryToText ?bits) [167, 69, 78, 68, 167] 1
      \<and> (\<forall>j<1. \<not> matchesAt (binaryToText ?bits) [167, 69, 78, 68, 167] j)"
    unfolding r1 by (simp add: matchesAt_def)
  with processDecoding_terminator [OF e]
  have "processDecoding idealOps ?buf 4 4 ''lsb'' = Inr (take 1 (binaryToText ?bits))"
    by blast
  then have a: "processDecoding idealOps ?buf 4 4 ''lsb'' = Inr [65]"
    unfolding r1 by simp
  have "extractLSB ?buf2 = ?bits2"
    by (simp add: extractLSB_def extractLSB_loop_read extractLSB_loop_next extractLSB_loop_stop
          belowMaxBits_def rd_def toInt32_def)
  then have e2: "extractBinary idealOps ?buf2 3 1 ''lsb'' = Inr ?bits2"
    by (simp add: extractBinary_def)
  have r2: "binaryToText ?bits2 = [104]"
    by (simp add: binaryToText_Cons8 binaryToText_short parseInt2_def fromCharCode_def)
  have "\<forall>k. \<not> matchesAt (binaryToText ?bits2) [167, 69, 78, 68, 167] k"
    unfolding r2 by (simp add: matchesAt_def)
  with processDecoding_terminator [OF e2]
  have "processDecoding idealOps ?buf2 3 1 ''lsb'' = Inr (binaryToText ?bits2)"
    by blast
  then have b: "processDecoding idealOps ?buf2 3 1 ''lsb'' = Inr [104]"
    unfolding r2 by simp
  from e a e2 b show ?thesis by blast
qed

section \<open>What the encoders leave untouched\<close>

lemma agreeOutside_refl: "agreeOutside S d d"
  by (simp add: agreeOutside_def)

lemma agreeOutside_trans [trans]: "agreeOutside S a b \<Longrightarrow> agreeOutside S b c \<Longrightarrow> agreeOutside S a c"
  by (simp add: agreeOutside_def)

lemma agreeOutside_mono: "S \<subseteq> T \<Longrightarrow> agreeOutside S a b \<Longrightarrow> agreeOutside T a b"
  by (auto simp: agreeOutside_def)

lemma agreeOutside_update: "k \<in> S \<Longrightarrow> agreeOutside S d (d[k := v])"
  by (simp add: agreeOutside_def) (metis nth_list_update_neq)

lemma agreeOutside_fold:
  assumes "\<And>x d. x \<in> set xs \<Longrightarrow> agreeOutside S d (f x d)"
  shows "agreeOutside S d (fold f xs d)"
  using assms
proof (induction xs arbitrary: d)
  case Nil
  show ?case by (simp add: agreeOutside_refl)
next
  case (Cons x xs)
  have "agreeOutside S d (f x d)" by (rule Cons.prems) simp
  moreover have "agreeOutside S (f x d) (fold f xs (f x d))"
    by (rule Cons.IH) (simp add: Cons.prems)
  ultimately show ?case by (simp add: agreeOutside_trans)
qed

subsection \<open>Patchwork\<close>

lemma patchBlueIndex_mod4:
  assumes "patchBlueIndex origin width x y = Some n" and "0 \<le> n"
  shows "nat n \<in> blueIndices"
proof -
  from assms(1) obtain px py where
    "n = ((py + y) * int width + (px + x)) * 4 + 2"
    by (cases "fst origin"; cases "snd origin") (auto simp add: patchBlueIndex_def)
  then have "n mod 4 = 2" by (simp only: mod_mult_self3) simp
  with assms(2) have "nat n mod 4 = 2"
    by (metis nat_mod_distrib nat_numeral zero_le_numeral)
  then show ?thesis by (simp add: blueIndices_def)
qed

lemma patchworkPixel_frame:
  "agreeOutside blueIndices d (patchworkPixel d b (patchBlueIndex origin width x y))"
proof (cases "patchBlueIndex origin width x y")
  case None
  then show ?thesis by (simp add: patchworkPixel_def agreeOutside_refl)
next
  case (Some n)
  show ?thesis
  proof (cases "0 \<le> n")
    case True
    with Some have "nat n \<in> blueIndices" by (rule patchBlueIndex_mod4)
    then show ?thesis
      by (simp add: patchworkPixel_def Some agreeOutside_refl agreeOutside_update split: option.splits)
  next
    case False
    then show ?thesis
      by (simp add: patchworkPixel_def Some rdAt_def agreeOutside_refl)
  qed
qed

lemma patchworkPatch_frame: "agreeOutside blueIndices d (patchworkPatch d b origin width)"
  unfolding patchworkPatch_def
  by (intro agreeOutside_fold patchworkPixel_frame)

lemma applyPatchwork_frame: "agreeOutside blueIndices data (applyPatchwork data bm width height)"
  unfolding applyPatchwork_def
  by (intro agreeOutside_fold patchworkPatch_frame)

subsection \<open>Frequency domain\<close>

lemma writeBlock_frame:
  assumes "blockX < blocksX" and "blockY < blocksY"
  shows "agreeOutside (gridIndices width blocksX blocksY) d
           (writeBlock d width (blockX * 8) (blockY * 8) blk 2)"
  unfolding writeBlock_def
proof (intro agreeOutside_fold agreeOutside_update)
  fix i j :: nat
  assume "i \<in> set [0..<8]" and "j \<in> set [0..<8]"
  then have "blockX * 8 + j < 8 * blocksX" and "blockY * 8 + i < 8 * blocksY"
    using assms by auto
  then show "((blockY * 8 + i) * width + (blockX * 8 + j)) * 4 + 2 \<in> gridIndices width blocksX blocksY"
    unfolding gridIndices_def by blast
qed

lemma applyDCT_loop_frame:
  "agreeOutside (gridIndices width blocksX blocksY) data
     (applyDCT_loop ops data bm width blocksX blocksY blockY blockX bitIndex)"
proof (induction ops data bm width blocksX blocksY blockY blockX bitIndex rule: applyDCT_loop.induct)
  case (1 ops data bm width blocksX blocksY blockY blockX bitIndex)
  let ?G = "gridIndices width blocksX blocksY"
  show ?case
  proof (cases "blockY < blocksY \<and> bitIndex < length bm")
    case False
    then show ?thesis
      by (subst applyDCT_loop.simps) (auto simp: agreeOutside_refl)
  next
    case outer: True
    show ?thesis
    proof (cases "blockX < blocksX \<and> bitIndex < length bm")
      case False
      with outer 1(3) show ?thesis
        by (subst applyDCT_loop.simps) auto
    next
      case inner: True
      show ?thesis
      proof (cases "blockY = 0 \<and> blockX = 0")
        case True
        have "agreeOutside ?G data (dctMetadataBlock ops data bm width)"
          unfolding dctMetadataBlock_def Let_def
          using writeBlock_frame [of 0 blocksX 0 blocksY] inner outer True by simp
        moreover have "agreeOutside ?G (dctMetadataBlock ops data bm width)
            (applyDCT_loop ops (dctMetadataBlock ops data bm width) bm width blocksX blocksY blockY (blockX + 1) bitIndex)"
          using 1(1) outer inner True by simp
        ultimately show ?thesis
          using outer inner True
          by (subst applyDCT_loop.simps) (auto intro: agreeOutside_trans)
      next
        case False
        define r where "r = dctPayloadBlock ops data bm width blockX blockY bitIndex"
        have "agreeOutside ?G data (fst r)"
          unfolding r_def dctPayloadBlock_def Let_def
          using writeBlock_frame [of blockX blocksX blockY blocksY] inner outer by simp
        moreover have "agreeOutside ?G (fst r)
            (applyDCT_loop ops (fst r) bm width blocksX blocksY blockY (blockX + 1) (snd r))"
          using 1(2) [OF outer inner False r_def] .
        ultimately have "agreeOutside ?G data
            (applyDCT_loop ops (fst r) bm width blocksX blocksY blockY (blockX + 1) (snd r))"
          by (rule agreeOutside_trans)
        then show ?thesis
          using outer inner False
          by (subst applyDCT_loop.simps) (auto simp: r_def Let_def)
      qed
    qed
  qed
qed

lemma gridIndices_blue: "gridIndices width blocksX blocksY \<subseteq> blueIndices"
proof
  fix k
  assume "k \<in> gridIndices width blocksX blocksY"
  then obtain m where "k = m * 4 + 2"
    unfolding gridIndices_def by blast
  then have "k mod 4 = 2" by (simp only: mod_mult_self3) simp
  then show "k \<in> blueIndices" by (simp add: blueIndices_def)
qed

lemma applyDCTSteganography_frame:
  "agreeOutside (gridIndices width (width div 8) (height div 8)) data
     (applyDCTSteganography ops data bm width height)"
  unfolding applyDCTSteganography_def by (rule applyDCT_loop_frame)


subsection \<open>Histogram\<close>

lemma blue_offset: "i mod 4 = 0 \<Longrightarrow> i + 2 \<in> blueIndices"
  by (simp add: blueIndices_def) presburger

lemma blue_offset_Suc: "i mod 4 = 0 \<Longrightarrow> Suc (Suc i) \<in> blueIndices"
  using blue_offset [of i] by simp

lemma shiftPixel_frame:
  "i mod 4 = 0 \<Longrightarrow> agreeOutside blueIndices d (shiftPixel d p z s i)"
  by (simp add: shiftPixel_def Let_def agreeOutside_refl agreeOutside_update blue_offset_Suc
        split: option.splits)

lemma histogramShift_frame:
  "i mod 4 = 0 \<Longrightarrow> agreeOutside blueIndices d (histogramShift d p z s i)"
proof (induction d p z s i rule: histogramShift.induct)
  case (1 data p z s i)
  show ?case
  proof (cases "i < length data")
    case True
    from 1(2) have "(i + 4) mod 4 = 0" by simp
    with 1(1) True have "agreeOutside blueIndices (shiftPixel data p z s i)
        (histogramShift (shiftPixel data p z s i) p z s (i + 4))" by simp
    with shiftPixel_frame [OF 1(2)] have "agreeOutside blueIndices data
        (histogramShift (shiftPixel data p z s i) p z s (i + 4))"
      by (rule agreeOutside_trans)
    with True show ?thesis by (subst histogramShift.simps) simp
  next
    case False
    then show ?thesis by (subst histogramShift.simps) (simp add: agreeOutside_refl)
  qed
qed

lemma histogramEmbed_frame:
  "i mod 4 = 0 \<Longrightarrow> agreeOutside blueIndices d (histogramEmbed d bm p s i b)"
proof (induction d bm p s i b rule: histogramEmbed.induct)
  case (1 data bm p s i b)
  from 1(3) have i4: "(i + 4) mod 4 = 0" by simp
  show ?case
  proof (cases "i < length data \<and> b < length bm")
    case False
    then show ?thesis by (subst histogramEmbed.simps) (auto simp: agreeOutside_refl)
  next
    case True
    show ?thesis
    proof (cases "map_option unat (rd data (i + 2)) = Some p")
      case False
      with 1(2) True i4 show ?thesis by (subst histogramEmbed.simps) auto
    next
      case peak: True
      define d' where "d' = (if bm ! b
              then data[i + 2 := clampInt (if s then int p + 1 else int p - 1)] else data)"
      have "agreeOutside blueIndices data d'"
        by (simp add: d'_def agreeOutside_refl agreeOutside_update blue_offset_Suc [OF 1(3)])
      moreover have "agreeOutside blueIndices d' (histogramEmbed d' bm p s (i + 4) (b + 1))"
        unfolding d'_def using 1(1) True peak i4 by simp
      ultimately have "agreeOutside blueIndices data (histogramEmbed d' bm p s (i + 4) (b + 1))"
        by (rule agreeOutside_trans)
      with True peak show ?thesis
        by (subst histogramEmbed.simps) (simp add: d'_def)
    qed
  qed
qed

lemma histogramMetadata_frame:
  "agreeOutside blueIndices d (histogramMetadata d p z s n)"
proof -
  have sig: "agreeOutside blueIndices d
      (fold (\<lambda>i d. d[i * 4 + 2 := clampInt ((int i + 1) * 10)]) [0..<8] d)"
    by (intro agreeOutside_fold agreeOutside_update blue_offset) simp
  have b: "(8 * 4 + 2 :: nat) \<in> blueIndices" "(9 * 4 + 2 :: nat) \<in> blueIndices"
    "(10 * 4 + 2 :: nat) \<in> blueIndices" "(11 * 4 + 2 :: nat) \<in> blueIndices"
    "(12 * 4 + 2 :: nat) \<in> blueIndices"
    by (simp_all add: blueIndices_def)
  define d2 where "d2 = (fold (\<lambda>i d. d[i * 4 + 2 := clampInt ((int i + 1) * 10)]) [0..<8] d)
      [8 * 4 + 2 := clampInt (int p)]"
  define d3 where "d3 = d2[9 * 4 + 2 := clampInt (int z)]"
  define d4 where "d4 = d3[10 * 4 + 2 := (if s then 1 else 0)]"
  define d5 where "d5 = d4[11 * 4 + 2 := toUint8Clamp (Some (min 255 (real n / 8)))]"
  have "agreeOutside blueIndices d d2"
    unfolding d2_def by (rule agreeOutside_trans [OF sig agreeOutside_update [OF b(1)]])
  also have "agreeOutside blueIndices d2 d3"
    unfolding d3_def by (rule agreeOutside_update [OF b(2)])
  also have "agreeOutside blueIndices d3 d4"
    unfolding d4_def by (rule agreeOutside_update [OF b(3)])
  also have "agreeOutside blueIndices d4 d5"
    unfolding d5_def by (rule agreeOutside_update [OF b(4)])
  also have "agreeOutside blueIndices d5 (histogramMetadata d p z s n)"
    unfolding histogramMetadata_def Let_def d5_def d4_def d3_def d2_def
    by (auto simp: agreeOutside_update blueIndices_def)
  finally show ?thesis .
qed

lemma applyHistogramShifting_frame:
  "agreeOutside blueIndices data (applyHistogramShifting data bm)"
proof -
  define h where "h = histogramCount data (32 * 4) (replicate 256 0)"
  define p where "p = findPeak h"
  define z where "z = findZero h p"
  define shifted where "shifted = histogramShift data p z (z > p) (32 * 4)"
  define embedded where "embedded = histogramEmbed shifted bm p (z > p) (32 * 4) 0"
  have "agreeOutside blueIndices data shifted"
    unfolding shifted_def by (rule histogramShift_frame) simp
  also have "agreeOutside blueIndices shifted embedded"
    unfolding embedded_def by (rule histogramEmbed_frame) simp
  also have "agreeOutside blueIndices embedded (histogramMetadata embedded p z (z > p) (length bm))"
    by (rule histogramMetadata_frame)
  finally show ?thesis
    by (simp add: applyHistogramShifting_def Let_def embedded_def shifted_def z_def p_def h_def)
qed

text \<open>
  C10: the SpatialPatchBias, FrequencyCoefficientQuant and HistogramPeakShift encoders keep
  the length of the buffer and change only blue samples: every sample at an index not
  congruent to 2 modulo 4 (red, green, alpha) is as before.
\<close>

theorem encode_blue_channel_only:
  "length (applyPatchwork data bm width height) = length data \<and>
   length (applyDCTSteganography ops data bm width height) = length data \<and>
   length (applyHistogramShifting data bm) = length data \<and>
   (\<forall>k. k mod 4 \<noteq> 2 \<longrightarrow>
      applyPatchwork data bm width height ! k = data ! k \<and>
      applyDCTSteganography ops data bm width height ! k = data ! k \<and>
      applyHistogramShifting data bm ! k = data ! k)"
proof -
  have "agreeOutside blueIndices data (applyDCTSteganography ops data bm width height)"
    using applyDCTSteganography_frame gridIndices_blue by (rule agreeOutside_mono [rotated])
  with applyPatchwork_frame [of data bm width height] applyHistogramShifting_frame [of data bm]
  show ?thesis
    by (simp add: agreeOutside_def blueIndices_def)
qed

theorem encode_blue_channel_only_witness:
  "(5::nat) mod 4 \<noteq> 2 \<and>
   applyPatchwork (replicate 1024 7) [True, False] 16 16 ! 5 = 7 \<and>
   applyDCTSteganography idealOps (replicate 1024 7) [True, False] 16 16 ! 5 = 7 \<and>
   applyHistogramShifting (replicate 1024 7) [True, False] ! 5 = 7"
proof -
  have "(5::nat) mod 4 \<noteq> 2" by simp
  with encode_blue_channel_only [of "replicate 1024 7" "[True, False]" 16 16 idealOps]
  have "applyPatchwork (replicate 1024 7) [True, False] 16 16 ! 5 = replicate 1024 7 ! 5"
    "applyDCTSteganography idealOps (replicate 1024 7) [True, False] 16 16 ! 5 = replicate 1024 7 ! 5"
    "applyHistogramShifting (replicate 1024 7) [True, False] ! 5 = replicate 1024 7 ! 5"
    by blast+
  then show ?thesis by simp
qed

lemma outside_grid:
  assumes "px < width" and "8 * blocksX \<le> width" and "c < 4"
    and "px \<ge> 8 * blocksX \<or> py \<ge> 8 * blocksY"
  shows "(py * width + px) * 4 + c \<notin> gridIndices width blocksX blocksY"
proof
  assume "(py * width + px) * 4 + c \<in> gridIndices width blocksX blocksY"
  then obtain qx qy where q: "qx < 8 * blocksX" "qy < 8 * blocksY"
    and eq: "(py * width + px) * 4 + c = (qy * width + qx) * 4 + 2"
    unfolding gridIndices_def by blast
  from q(1) assms(2) have qw: "qx < width" by simp
  have "((py * width + px) * 4 + c) mod 4 = c mod 4" by (simp only: mod_mult_self3)
  moreover have "((qy * width + qx) * 4 + 2) mod 4 = 2" by (simp only: mod_mult_self3) simp
  ultimately have cm: "c mod 4 = 2" using eq by simp
  have "((py * width + px) * 4 + c) div 4 = py * width + px + c div 4"
    by simp
  moreover have "((qy * width + qx) * 4 + 2) div 4 = qy * width + qx"
    by simp
  ultimately have e: "py * width + px + c div 4 = qy * width + qx" using eq by simp
  with assms(3) have e': "py * width + px = qy * width + qx" by simp
  have "(py * width + px) div width = py" using assms(1) by simp
  moreover have "(qy * width + qx) div width = qy" using qw by simp
  ultimately have "py = qy" using e' by simp
  with e' have "px = qx" by simp
  with \<open>py = qy\<close> q assms(4) show False by simp
qed

text \<open>
  C6: the FrequencyCoefficientQuant encoder runs its block loop with the counts
  \<open>width div 8\<close> and \<open>height div 8\<close>, and every sample of a pixel outside the grid of
  complete blocks is unchanged.
\<close>

theorem dct_partial_blocks_untouched:
  assumes "px < width" and "py < height" and "c < 4"
    and "px \<ge> 8 * (width div 8) \<or> py \<ge> 8 * (height div 8)"
  shows "applyDCTSteganography ops data bm width height =
           applyDCT_loop ops data bm width (width div 8) (height div 8) 0 0 0 \<and>
         length (applyDCTSteganography ops data bm width height) = length data \<and>
         applyDCTSteganography ops data bm width height ! ((py * width + px) * 4 + c)
           = data ! ((py * width + px) * 4 + c)"
proof -
  have "(py * width + px) * 4 + c \<notin> gridIndices width (width div 8) (height div 8)"
    using assms(1) _ assms(3,4) by (rule outside_grid) simp
  with applyDCTSteganography_frame [of width height data ops bm] show ?thesis
    by (simp add: agreeOutside_def applyDCTSteganography_def)
qed

theorem dct_partial_blocks_untouched_witness:
  "applyDCTSteganography idealOps (replicate 324 7) [True, False] 9 9 ! 34 = 7"
  using dct_partial_blocks_untouched [of 8 9 0 9 2 idealOps "replicate 324 7" "[True, False]",
      THEN conjunct2, THEN conjunct2]
  by simp

section \<open>The signature test of FrequencyCoefficientQuant\<close>

lemma zeroBlock_nth: "x < 8 \<Longrightarrow> y < 8 \<Longrightarrow> zeroBlock ! x ! y = Some 0"
  by (simp add: zeroBlock_def)

lemma exactLaws_zero:
  assumes "exactLaws ops"
  shows "dmul ops 0 x = 0" and "dmul ops x 0 = 0" and "dadd ops 0 0 = 0"
proof -
  from assms show "dmul ops 0 x = 0" and "dmul ops x 0 = 0"
    by (simp_all add: exactLaws_def)
  from assms have "dadd ops (real 0) (real 0) = real (0 + 0)"
    unfolding exactLaws_def by (elim conjE allE [where x = "0::nat"] impE) simp_all
  then show "dadd ops 0 0 = 0" by simp
qed

lemma applyDCT_zero:
  assumes "exactLaws ops"
  shows "applyDCT ops zeroBlock = zeroBlock"
proof -
  note z = exactLaws_zero [OF assms]
  have s: "fold (\<lambda>x s. fold (\<lambda>y s'.
              nadd ops s' (nmul ops (nmul ops (zeroBlock ! x ! y) (Some (dctCos ops x u)))
                                    (Some (dctCos ops y v))))
              [0..<8] s) [0..<8] (Some 0) = Some 0" for u v
    by (intro fold_fixed) (simp add: zeroBlock_nth nadd_def nmul_def z)
  show ?thesis
    unfolding applyDCT_def Let_def s
    by (simp add: nmul_def zeroBlock_def map_const_replicate z)
qed


lemma extractBlock_zero:
  assumes "8 \<le> width" and "8 \<le> height"
  shows "extractBlock (replicate (4 * width * height) 0) width 0 0 2 = zeroBlock"
proof -
  have "toNumber (rd (replicate (4 * width * height) 0) (((0 + i) * width + (0 + j)) * 4 + 2)) = Some 0"
    if "i < 8" and "j < 8" for i j
  proof -
    from that assms have "i * width + j < (i + 1) * width" by simp
    also from that have "\<dots> \<le> 8 * width" by simp
    also from assms have "\<dots> \<le> height * width" by simp
    finally have "i * width + j + 1 \<le> height * width" by simp
    then have "(i * width + j + 1) * 4 \<le> height * width * 4" by (rule mult_le_mono1)
    then have "(i * width + j) * 4 + 2 < 4 * width * height" by (simp add: algebra_simps)
    then show ?thesis by (simp add: rd_def toNumber_def)
  qed
  then show ?thesis
    unfolding extractBlock_def zeroBlock_def
    by (intro map_const_replicate [where xs = "[0..<8]", simplified]) simp
qed

lemma roundedIsEven_iff: "roundedIsEven (Some r) \<longleftrightarrow> even (js_round r)"
proof -
  have "sgn a * (\<bar>a\<bar> mod 2) = 0 \<longleftrightarrow> even a" for a :: int
    by (simp add: sgn_if) presburger
  then show ?thesis by (simp add: roundedIsEven_def js_rem_def)
qed

lemma roundedIsEven_zero: "roundedIsEven (Some 0)"
  by (simp add: roundedIsEven_iff js_round_def)

lemma extractDCT_loop_nothing:
  "extractDCT_loop ops data width blocksX blocksY 0 blockY blockX binary = binary"
  by (subst extractDCT_loop.simps) simp

lemma extractDCT_zero_buffer:
  assumes "exactLaws ops" and "8 \<le> width" and "8 \<le> height"
  shows "extractDCTSteganography ops (replicate (4 * width * height) 0) width height = Inr []"
proof -
  have m: "metadataCoeffs ops (replicate (4 * width * height) 0) width = zeroBlock"
    by (simp add: metadataCoeffs_def extractBlock_zero [OF assms(2,3)] applyDCT_zero [OF assms(1)])
  have "map (\<lambda>i. \<not> roundedIsEven (zeroBlock ! (i div 4 + 1) ! (i mod 4))) [0..<16]
      = replicate 16 False"
    by (intro map_const_replicate [where xs = "[0..<16]", simplified])
       (simp add: zeroBlock_nth roundedIsEven_zero)
  moreover have "parseInt2 (replicate 16 False) = 0"
    using parseInt2_replicate_False [of 16 "[]"] by (simp add: parseInt2_def)
  ultimately show ?thesis
    by (simp add: extractDCTSteganography_def m Let_def zeroBlock_nth roundedIsEven_zero
          extractDCT_loop_nothing)
qed

lemma applyDCT_nth:
  "u < 8 \<Longrightarrow> v < 8 \<Longrightarrow>
   applyDCT ops blk ! u ! v
     = nmul ops (nmul ops (nmul ops (Some (ddiv ops 1 4)) (Some (dctC ops u))) (Some (dctC ops v)))
         (fold (\<lambda>x s. fold (\<lambda>y s'.
                  nadd ops s' (nmul ops (nmul ops (blk ! x ! y) (Some (dctCos ops x u)))
                                        (Some (dctCos ops y v))))
                [0..<8] s)
            [0..<8] (Some 0))"
  unfolding applyDCT_def Let_def by (simp del: upt_Suc)

text \<open>A sample of the block that is \<open>undefined\<close> makes every coefficient \<open>NaN\<close>.\<close>

lemma applyDCT_NaN:
  assumes "x0 < 8" and "y0 < 8" and "blk ! x0 ! y0 = None" and "u < 8" and "v < 8"
  shows "applyDCT ops blk ! u ! v = None"
proof -
  let ?t = "\<lambda>x y. nmul ops (nmul ops (blk ! x ! y) (Some (dctCos ops x u))) (Some (dctCos ops y v))"
  have inner: "fold (\<lambda>y s'. nadd ops s' (?t x0 y)) [0..<8] s = None" for s
    by (rule fold_absorb [where ?x0.0 = y0])
       (use assms(2,3) in \<open>simp_all add: nadd_def nmul_def split: option.splits\<close>)
  have "fold (\<lambda>x s. fold (\<lambda>y s'. nadd ops s' (?t x y)) [0..<8] s) [0..<8] (Some 0) = None"
  proof (rule fold_absorb [where ?x0.0 = x0])
    show "x0 \<in> set [0..<8]" using assms(1) by simp
    show "fold (\<lambda>y s'. nadd ops s' (?t x0 y)) [0..<8] s = None" for s by (rule inner)
    show "fold (\<lambda>y s'. nadd ops s' (?t x y)) [0..<8] None = None" for x
      by (rule fold_fixed) (simp add: nadd_def)
  qed
  with assms(4,5) show ?thesis
    by (simp add: applyDCT_nth nmul_def)
qed

lemma metadataCoeffs_NaN:
  assumes "\<not> (7 * width + 7) * 4 + 2 < length data"
  shows "metadataCoeffs ops data width ! 0 ! 0 = None"
  unfolding metadataCoeffs_def
proof (rule applyDCT_NaN [where ?x0.0 = 7 and ?y0.0 = 7])
  show "extractBlock data width 0 0 2 ! 7 ! 7 = None"
    using assms by (simp add: extractBlock_def rd_def toNumber_def del: upt_Suc)
qed simp_all


text \<open>Exact sums of small non-negative integers.\<close>

lemma nadd_Some: "nadd ops (Some x) (Some y) = Some (dadd ops x y)"
  by (simp add: nadd_def)

lemma fold_nadd_sum:
  assumes "exactLaws ops" and "a + sum_list (map g ys) < 2 ^ 53"
  shows "fold (\<lambda>y s. nadd ops s (Some (real (g y)))) ys (Some (real a))
     = Some (real (a + sum_list (map g ys)))"
  using assms(2)
proof (induction ys arbitrary: a)
  case Nil
  then show ?case by simp
next
  case (Cons y ys)
  from Cons.prems have "a + g y < 2 ^ 53" by simp
  with assms(1) have "dadd ops (real a) (real (g y)) = real (a + g y)"
    by (simp add: exactLaws_def)
  then have "fold (\<lambda>y s. nadd ops s (Some (real (g y)))) (y # ys) (Some (real a))
      = fold (\<lambda>y s. nadd ops s (Some (real (g y)))) ys (Some (real (a + g y)))"
    by (simp only: fold_Cons o_apply nadd_Some)
  also from Cons.prems have "(a + g y) + sum_list (map g ys) < 2 ^ 53" by simp
  then have "fold (\<lambda>y s. nadd ops s (Some (real (g y)))) ys (Some (real (a + g y)))
      = Some (real ((a + g y) + sum_list (map g ys)))"
    by (rule Cons.IH)
  finally show ?case by (simp add: add.assoc)
qed

lemma fold_fold_nadd_sum:
  assumes "exactLaws ops" and "a + (\<Sum>x\<leftarrow>xs. sum_list (map (g x) ys)) < 2 ^ 53"
  shows "fold (\<lambda>x s. fold (\<lambda>y s'. nadd ops s' (Some (real (g x y)))) ys s) xs (Some (real a))
     = Some (real (a + (\<Sum>x\<leftarrow>xs. sum_list (map (g x) ys))))"
  using assms(2)
proof (induction xs arbitrary: a)
  case Nil
  then show ?case by simp
next
  case (Cons x xs)
  from Cons.prems have "a + sum_list (map (g x) ys) < 2 ^ 53" by simp
  then have "fold (\<lambda>y s'. nadd ops s' (Some (real (g x y)))) ys (Some (real a))
      = Some (real (a + sum_list (map (g x) ys)))"
    by (rule fold_nadd_sum [OF assms(1)])
  moreover from Cons.prems
  have "(a + sum_list (map (g x) ys)) + (\<Sum>x\<leftarrow>xs. sum_list (map (g x) ys)) < 2 ^ 53" by simp
  ultimately show ?case
    using Cons.IH [of "a + sum_list (map (g x) ys)"] by (simp add: add.assoc del: of_nat_add of_nat_sum)
qed

lemma sum_list_bounded: "(\<And>x. g x \<le> (c::nat)) \<Longrightarrow> sum_list (map g xs) \<le> length xs * c"
proof (induction xs)
  case Nil
  show ?case by simp
next
  case (Cons x xs)
  from Cons have "g x + sum_list (map g xs) \<le> c + length xs * c"
    by (intro add_mono) simp_all
  then show ?case by simp
qed

lemma dctCos_0:
  assumes "exactLaws ops"
  shows "dctCos ops x 0 = 1"
  using assms by (simp add: dctCos_def exactLaws_def)

text \<open>
  The DC coefficient of a block of samples is the factor \<open>(1 / 4) * cu * cv\<close> times their
  sum: the cosines are \<open>Math.cos(0)\<close> and the sum is exact.
\<close>

lemma applyDCT_dc:
  assumes "exactLaws ops"
    and "\<And>x y. x < 8 \<Longrightarrow> y < 8 \<Longrightarrow> blk ! x ! y = Some (real (b x y))"
    and "\<And>x y. b x y \<le> 255"
  shows "applyDCT ops blk ! 0 ! 0
     = Some (dmul ops (dcFactor ops) (real (\<Sum>x\<leftarrow>[0..<8]. \<Sum>y\<leftarrow>[0..<8]. b x y)))"
proof -
  from assms(1) have one: "dmul ops r 1 = r" for r by (simp add: exactLaws_def)
  have "(\<Sum>x\<leftarrow>[0..<8]. \<Sum>y\<leftarrow>[0..<8]. b x y) \<le> length [0..<8::nat] * (8 * 255)"
  proof (rule sum_list_bounded)
    fix x
    have "sum_list (map (b x) [0..<8]) \<le> length [0..<8::nat] * 255"
      by (rule sum_list_bounded) (rule assms(3))
    then show "sum_list (map (b x) [0..<8]) \<le> 8 * 255" by simp
  qed
  then have bound: "0 + (\<Sum>x\<leftarrow>[0..<8]. \<Sum>y\<leftarrow>[0..<8]. b x y) < 2 ^ 53" by simp
  have "fold (\<lambda>x s. fold (\<lambda>y s'.
            nadd ops s' (nmul ops (nmul ops (blk ! x ! y) (Some (dctCos ops x 0))) (Some (dctCos ops y 0))))
            [0..<8] s) [0..<8] (Some 0)
      = fold (\<lambda>x s. fold (\<lambda>y s'. nadd ops s' (Some (real (b x y)))) [0..<8] s) [0..<8] (Some (real 0))"
    by (intro fold_cong refl ext) (simp_all add: assms(2) nmul_def dctCos_0 [OF assms(1)] one)
  also have "\<dots> = Some (real (0 + (\<Sum>x\<leftarrow>[0..<8]. \<Sum>y\<leftarrow>[0..<8]. b x y)))"
    using assms(1) bound by (rule fold_fold_nadd_sum)
  finally show ?thesis
    by (simp add: applyDCT_nth nmul_def dcFactor_def)
qed

lemma metadataCoeffs_dc:
  assumes "exactLaws ops" and "(7 * width + 7) * 4 + 2 < length data"
  shows "metadataCoeffs ops data width ! 0 ! 0
     = Some (dmul ops (dcFactor ops) (real (blueSum00 data width)))"
  unfolding metadataCoeffs_def blueSum00_def
proof (rule applyDCT_dc [OF assms(1)])
  fix i j :: nat
  show "unat (data ! ((i * width + j) * 4 + 2)) \<le> 255"
    using unsigned_less [of "data ! ((i * width + j) * 4 + 2)", where ?'a = nat] by simp
  assume "i < 8" and "j < 8"
  then have "i \<le> 7" and "j \<le> 7" by simp_all
  from \<open>i \<le> 7\<close> have "i * width \<le> 7 * width" by (rule mult_le_mono1)
  then have "i * width + j \<le> 7 * width + 7" using \<open>j \<le> 7\<close> by (rule add_mono)
  then have "(i * width + j) * 4 \<le> (7 * width + 7) * 4" by (rule mult_le_mono1)
  then have "(i * width + j) * 4 + 2 \<le> (7 * width + 7) * 4 + 2" by (rule add_le_mono1)
  with assms(2) have "(i * width + j) * 4 + 2 < length data" by simp
  with \<open>i < 8\<close> \<open>j < 8\<close>
  show "extractBlock data width 0 0 2 ! i ! j = Some (real (unat (data ! ((i * width + j) * 4 + 2))))"
    by (simp add: extractBlock_def rd_def toNumber_def del: upt_Suc)
qed

lemma exactLaws_idealOps: "exactLaws idealOps"
  by (simp add: exactLaws_def idealOps_def)

lemma dcFactor_idealOps: "dcFactor idealOps = 1 / 8"
  by (simp add: dcFactor_def dctC_def idealOps_def)

lemma upt_0_8: "[0..<8] = [0, 1, 2, 3, 4, 5, 6, 7]"
  by code_simp


lemma processDecoding_dct_error:
  "processDecoding ops data width height ''dct'' = Inl e
     \<longleftrightarrow> extractDCTSteganography ops data width height = Inl e"
  by (simp add: processDecoding_def extractBinary_def Let_def split: sum.splits option.splits)

lemma extractDCT_mismatch_iff:
  "extractDCTSteganography ops data width height = Inl SignatureMismatch
     \<longleftrightarrow> \<not> roundedIsEven (metadataCoeffs ops data width ! 0 ! 0)"
  by (simp add: extractDCTSteganography_def Let_def)

text \<open>
  C4, as stated, fails on the all-zero buffer of an 8 by 8 image: every product and sum of
  the transform is 0 there (in double arithmetic exactly as without rounding), so the DC
  coefficient is 0, which is even; the signature test passes and an empty message is
  decoded.
\<close>

theorem dct_zero_buffer_accepted:
  "processDecoding idealOps (replicate 256 0) 8 8 ''dct'' = Inr []"
proof -
  have "extractDCTSteganography idealOps (replicate (4 * 8 * 8) 0) 8 8 = Inr []"
    by (rule extractDCT_zero_buffer) (simp_all add: exactLaws_idealOps)
  then show ?thesis
    by (simp add: processDecoding_def extractBinary_def binaryToText_Nil)
qed

text \<open>
  C4, amended. For every double arithmetic with the exact facts \<open>exactLaws\<close>: decode
  fails with SignatureMismatch when block (0,0) reaches outside the buffer (its DC
  coefficient is \<open>NaN\<close>); otherwise it fails exactly when the rounded DC coefficient, the
  rounded product of the factor \<open>(1 / 4) * cu * cv\<close> and the sum of the 64 blue samples of
  the block, is odd; and an all-zero buffer of an image at least 8 by 8 passes the test
  and decodes to the empty message.
\<close>

theorem dct_signature_check:
  assumes "exactLaws ops"
  shows "(\<not> (7 * width + 7) * 4 + 2 < length data \<longrightarrow>
            processDecoding ops data width height ''dct'' = Inl SignatureMismatch) \<and>
         ((7 * width + 7) * 4 + 2 < length data \<longrightarrow>
            (processDecoding ops data width height ''dct'' = Inl SignatureMismatch
               \<longleftrightarrow> odd (js_round (dmul ops (dcFactor ops) (real (blueSum00 data width)))))) \<and>
         (8 \<le> width \<and> 8 \<le> height \<longrightarrow>
            processDecoding ops (replicate (4 * width * height) 0) width height ''dct'' = Inr [])"
proof (intro conjI impI)
  assume "\<not> (7 * width + 7) * 4 + 2 < length data"
  then have "metadataCoeffs ops data width ! 0 ! 0 = None" by (rule metadataCoeffs_NaN)
  then show "processDecoding ops data width height ''dct'' = Inl SignatureMismatch"
    by (simp add: processDecoding_dct_error extractDCT_mismatch_iff roundedIsEven_def)
next
  assume "(7 * width + 7) * 4 + 2 < length data"
  with assms have "metadataCoeffs ops data width ! 0 ! 0
      = Some (dmul ops (dcFactor ops) (real (blueSum00 data width)))"
    by (rule metadataCoeffs_dc)
  then show "processDecoding ops data width height ''dct'' = Inl SignatureMismatch
      \<longleftrightarrow> odd (js_round (dmul ops (dcFactor ops) (real (blueSum00 data width))))"
    by (simp add: processDecoding_dct_error extractDCT_mismatch_iff roundedIsEven_iff)
next
  assume "8 \<le> width \<and> 8 \<le> height"
  with assms have "extractDCTSteganography ops (replicate (4 * width * height) 0) width height = Inr []"
    by (simp add: extractDCT_zero_buffer)
  then show "processDecoding ops (replicate (4 * width * height) 0) width height ''dct'' = Inr []"
    by (simp add: processDecoding_def extractBinary_def binaryToText_Nil)
qed

theorem dct_signature_check_witness:
  "exactLaws idealOps \<and>
   processDecoding idealOps (replicate 64 0) 4 4 ''dct'' = Inl SignatureMismatch \<and>
   blueSum00 ((replicate 256 0)[2 := 8]) 8 = 8 \<and>
   processDecoding idealOps ((replicate 256 0)[2 := 8]) 8 8 ''dct'' = Inl SignatureMismatch \<and>
   processDecoding idealOps (replicate 1024 0) 16 16 ''dct'' = Inr []"
proof -
  note t = dct_signature_check [OF exactLaws_idealOps]
  have "\<not> (7 * 4 + 7) * 4 + 2 < length (replicate 64 (0 :: 8 word))" by simp
  with t [of 4 "replicate 64 0" 4, THEN conjunct1]
  have a: "processDecoding idealOps (replicate 64 0) 4 4 ''dct'' = Inl SignatureMismatch"
    by blast
  have s: "blueSum00 ((replicate 256 0)[2 := 8]) 8 = 8"
    by (simp add: blueSum00_def upt_0_8 nth_list_update del: upt_Suc)
  have "(7 * 8 + 7) * 4 + 2 < length ((replicate 256 (0 :: 8 word))[2 := 8])" by simp
  moreover have "odd (js_round (dmul idealOps (dcFactor idealOps)
      (real (blueSum00 ((replicate 256 0)[2 := 8]) 8))))"
    by (simp add: s dcFactor_idealOps js_round_def) (simp add: idealOps_def)
  ultimately
  have b: "processDecoding idealOps ((replicate 256 0)[2 := 8]) 8 8 ''dct'' = Inl SignatureMismatch"
    using t [of 8 "(replicate 256 0)[2 := 8]" 8, THEN conjunct2, THEN conjunct1] by blast
  have "(8::nat) \<le> 16 \<and> (8::nat) \<le> 16" by simp
  with t [of 16 data 16, THEN conjunct2, THEN conjunct2]
  have "processDecoding idealOps (replicate (4 * 16 * 16) 0) 16 16 ''dct'' = Inr []"
    by blast
  with a s b exactLaws_idealOps show ?thesis by simp
qed

section \<open>Patch placement\<close>











section \<open>The length field of HistogramPeakShift\<close>

lemma length_textToBinary:
  "\<forall>c \<in> set s. c \<le> 255 \<Longrightarrow> length (textToBinary s) = 8 * length s"
  by (induction s) (simp_all add: byte_of_charCode)

lemma length_applyHistogram_parts:
  "length (histogramEmbed (histogramShift data p z s (32 * 4)) bm p s (32 * 4) 0) = length data"
proof -
  have "agreeOutside blueIndices data (histogramShift data p z s (32 * 4))"
    by (rule histogramShift_frame) simp
  moreover have "agreeOutside blueIndices (histogramShift data p z s (32 * 4))
      (histogramEmbed (histogramShift data p z s (32 * 4)) bm p s (32 * 4) 0)"
    by (rule histogramEmbed_frame) simp
  ultimately show ?thesis by (simp add: agreeOutside_def)
qed

lemma histogramLength_metadata:
  assumes "50 < length d"
  shows "histogramLength (histogramMetadata d p z s n)
     = Some ((unat (toUint8Clamp (Some (min 255 (real n / 8))))
             + unat (if real n / 8 > 255
                     then toUint8Clamp (Some (real_of_int \<lfloor>real n / 8 / 256\<rfloor>)) else 0) * 256) * 8)"
proof -
  have len: "length (fold (\<lambda>i d. d[i * 4 + 2 := clampInt ((int i + 1) * 10)]) [0..<8] d) = length d"
    by (rule fold_invariant [where Q = "\<lambda>_. True"]) simp_all
  with assms show ?thesis
    by (simp add: histogramLength_def histogramMetadata_def Let_def rd_def)
qed

lemma histogramLength_encode:
  assumes "50 < length data"
  shows "histogramLength (applyHistogramShifting data bm)
     = Some ((unat (toUint8Clamp (Some (min 255 (real (length bm) / 8))))
             + unat (if real (length bm) / 8 > 255
                     then toUint8Clamp (Some (real_of_int \<lfloor>real (length bm) / 8 / 256\<rfloor>)) else 0) * 256) * 8)"
  unfolding applyHistogramShifting_def Let_def
  by (rule histogramLength_metadata) (simp only: length_applyHistogram_parts assms)

text \<open>
  C5: the length that decode rebuilds from pixels 11 and 12 should be the bit length of
  the embedded message. For a payload of 251 characters (256 bytes with the terminator,
  2048 bits) in a 32 by 32 image, encode stores 255 and 1, and decode rebuilds
  \<open>(255 + 1 * 256) * 8 = 4088\<close>.
\<close>

theorem histogram_length_mismatch:
  "length (textToBinary (replicate 251 97 @ terminator)) = 2048 \<and>
   processEncoding ops (replicate 4096 7) 32 32 (replicate 251 97) ''histogram''
     = (None, applyHistogramShifting (replicate 4096 7) (textToBinary (replicate 251 97 @ terminator))) \<and>
   histogramLength (applyHistogramShifting (replicate 4096 7) (textToBinary (replicate 251 97 @ terminator)))
     = Some 4088"
proof -
  have l: "length (textToBinary (replicate 251 97 @ terminator)) = 2048"
    by (subst length_textToBinary) (auto simp: terminator_def)
  have "histogramLength (applyHistogramShifting (replicate 4096 7) (textToBinary (replicate 251 97 @ terminator)))
     = Some 4088"
    by (subst histogramLength_encode) (simp_all add: l toUint8Clamp_def)
  with l show ?thesis
    by (simp add: processEncoding_def Let_def)
qed

section \<open>Round trip of the bit-plane techniques\<close>












































end
